theory Spec2Isabelle
  imports Complex_Main "HOL-Library.Sublist" "HOL-Library.AList" "HOL-Library.Product_Lexorder"
begin

section \<open>The AI manager of \<^verbatim>\<open>src/services/ai_manager.py\<close>\<close>

text \<open>
  The class \<^verbatim>\<open>AIManager\<close> routes a generation request to one of several backends and
  keeps a health ledger about them. The embedding follows the class attribute by
  attribute and method by method.

  Conventions of the embedding.
  \<^item> Wall-clock readings (\<^verbatim>\<open>time.time()\<close>, \<^verbatim>\<open>datetime.now()\<close>) are an argument
    \<open>now\<close> of each operation, a real number of seconds; the successive readings inside one
    method call are identified, and floating-point rounding is not modelled.
  \<^item> The dictionaries \<^verbatim>\<open>provider_failures\<close>, \<^verbatim>\<open>last_error\<close>,
    \<^verbatim>\<open>provider_enabled\<close> and \<^verbatim>\<open>last_failure_time\<close> are total functions on
    names. \<^verbatim>\<open>__init__\<close> fills them for every provider name and no key is ever
    deleted, so \<^verbatim>\<open>d[name]\<close> never raises for a provider; the value of an absent key
    is the default that the source's \<^verbatim>\<open>d.get(name, default)\<close> reads.
  \<^item> \<^verbatim>\<open>self.providers\<close> is an association list in insertion order, which is the
    order in which Python iterates a dict.
  \<^item> A raised exception is a value: \<open>Inl\<close> of its message.
  \<^item> Messages are written in ASCII, accents dropped; \<^verbatim>\<open>str.lower\<close> is modelled
    on ASCII letters.
\<close>

subsection \<open>Data\<close>

type_synonym timestamp = real

text \<open>
  One entry of \<^verbatim>\<open>self.providers\<close>. \<open>has_client\<close> is the truth value of the
  \<^verbatim>\<open>'client'\<close> entry. \<open>dict_last_failure_time\<close> is what
  \<^verbatim>\<open>provider.get('last_failure_time')\<close> reads: \<open>None\<close> when the key is absent.
\<close>

record provider =
  has_client :: bool
  available :: bool
  priority :: int
  error_count :: int
  model :: string
  models :: "string list"
  current_model_index :: nat
  max_errors :: int
  last_success :: "timestamp option"
  consecutive_failures :: int
  dict_last_failure_time :: "timestamp option"

record rate_limit =
  reset_time :: timestamp
  attempts :: int

record manager =
  providers :: "(string \<times> provider) list"
  provider_failures :: "string \<Rightarrow> int"
  last_error :: "string \<Rightarrow> string option"
  provider_enabled :: "string \<Rightarrow> bool"
  last_failure_time :: "string \<Rightarrow> timestamp option"
  max_failures :: int
  rate_limits :: "string \<rightharpoonup> rate_limit"

text \<open>The module flags \<^verbatim>\<open>HAS_GEMINI\<close>, \<^verbatim>\<open>HAS_OPENAI\<close>, \<^verbatim>\<open>HAS_GROQ_CLIENT\<close>.\<close>

record libs =
  has_gemini :: bool
  has_openai :: bool
  has_groq_client :: bool

definition names :: "manager \<Rightarrow> string set" where
  "names s = set (map fst (providers s))"

definition upd_provider :: "string \<Rightarrow> (provider \<Rightarrow> provider) \<Rightarrow> manager \<Rightarrow> manager" where
  "upd_provider n f s = s\<lparr>providers := AList.map_entry n f (providers s)\<rparr>"

text \<open>
  \<^verbatim>\<open>__init__\<close> followed by \<^verbatim>\<open>initialize_providers\<close>. The four arguments say which
  backends \<^verbatim>\<open>initialize_providers\<close> managed to construct (library present, API key
  set, constructor did not raise): for those it stores a client and sets
  \<^verbatim>\<open>available\<close>. No provider dictionary has a key \<^verbatim>\<open>'last_failure_time'\<close>.
\<close>

definition mk_provider :: "bool \<Rightarrow> int \<Rightarrow> string \<Rightarrow> string list \<Rightarrow> int \<Rightarrow> provider" where
  "mk_provider up prio mdl mdls maxe =
     \<lparr>has_client = up, available = up, priority = prio, error_count = 0, model = mdl,
      models = mdls, current_model_index = 0, max_errors = maxe, last_success = None,
      consecutive_failures = 0, dict_last_failure_time = None\<rparr>"

definition init_manager :: "bool \<Rightarrow> bool \<Rightarrow> bool \<Rightarrow> bool \<Rightarrow> manager" where
  "init_manager gemini_up groq_up openai_up hf_up =
     \<lparr>providers =
        [(''gemini'', mk_provider gemini_up 1 ''gemini-2.0-flash-exp'' [] 2),
         (''groq'', mk_provider groq_up 2 ''llama3-70b-8192'' [] 2),
         (''openai'', mk_provider openai_up 3 ''gpt-3.5-turbo'' [] 2),
         (''huggingface'', mk_provider hf_up 4 ''''
            [''HuggingFaceH4/zephyr-7b-beta'', ''google/flan-t5-base''] 3)],
      provider_failures = (\<lambda>_. 0),
      last_error = (\<lambda>_. None),
      provider_enabled = (\<lambda>_. True),
      last_failure_time = (\<lambda>_. None),
      max_failures = 3,
      rate_limits = Map.empty\<rparr>"

subsection \<open>Strings\<close>

definition lower_char :: "char \<Rightarrow> char" where
  "lower_char c =
     (let k = (of_char c :: nat) in if 65 \<le> k \<and> k \<le> 90 then char_of (k + 32) else c)"

definition lower :: "string \<Rightarrow> string" where
  "lower = map lower_char"

text \<open>\<^verbatim>\<open>sub in s\<close> on strings.\<close>

primrec contains :: "string \<Rightarrow> string \<Rightarrow> bool" where
  "contains sub [] = (sub = [])"
| "contains sub (c # cs) = (prefix sub (c # cs) \<or> contains sub cs)"

definition rate_limit_keywords :: "string list" where
  "rate_limit_keywords = [''429'', ''rate limit'', ''quota'', ''exceeded'', ''too many'']"

definition is_rate_limit :: "string \<Rightarrow> bool" where
  "is_rate_limit msg = list_ex (\<lambda>k. contains k (lower msg)) rate_limit_keywords"

function str_nat :: "nat \<Rightarrow> string" where
  "str_nat n = (if n < 10 then [char_of (48 + n)] else str_nat (n div 10) @ [char_of (48 + n mod 10)])"
  by pat_completeness auto
termination
  by (relation "measure id") auto

definition str_int :: "int \<Rightarrow> string" where
  "str_int i = (if i < 0 then ''-'' @ str_nat (nat (- i)) else str_nat (nat i))"

text \<open>
  The characters below code point 256 that \<^verbatim>\<open>str.isspace\<close> accepts and on which
  \<^verbatim>\<open>str.split()\<close> splits.
\<close>

definition is_space :: "char \<Rightarrow> bool" where
  "is_space c =
     (c \<in> set [CHR '' '', CHR 0x09, CHR 0x0A, CHR 0x0B, CHR 0x0C, CHR 0x0D,
                CHR 0x1C, CHR 0x1D, CHR 0x1E, CHR 0x1F, CHR 0x85, CHR 0xA0])"

text \<open>\<^verbatim>\<open>s.split()\<close>: the maximal runs of characters that are not whitespace.\<close>

fun split_words :: "string \<Rightarrow> string \<Rightarrow> string list" where
  "split_words cur [] = (if cur = [] then [] else [cur])"
| "split_words cur (c # cs) =
     (if is_space c then (if cur = [] then split_words [] cs else cur # split_words [] cs)
      else split_words (cur @ [c]) cs)"

subsection \<open>Recording successes and failures\<close>

text \<open>\<^verbatim>\<open>_record_success\<close>\<close>

definition record_success :: "string \<Rightarrow> timestamp \<Rightarrow> manager \<Rightarrow> manager" where
  "record_success n now s =
     (if n \<in> names s then
        s\<lparr>providers :=
            AList.map_entry n (\<lambda>p. p\<lparr>consecutive_failures := 0, last_success := Some now\<rparr>)
              (providers s),
          provider_failures := (provider_failures s)(n := 0),
          last_error := (last_error s)(n := None),
          last_failure_time := (last_failure_time s)(n := None),
          provider_enabled := (provider_enabled s)(n := True)\<rparr>
      else s)"

text \<open>\<^verbatim>\<open>_record_failure\<close>\<close>

definition record_failure :: "string \<Rightarrow> string \<Rightarrow> timestamp \<Rightarrow> manager \<Rightarrow> manager" where
  "record_failure n error_msg now s =
     (if n \<notin> names s then s
      else
        let f = provider_failures s n + 1 in
        s\<lparr>providers := AList.map_entry n (\<lambda>p. p\<lparr>error_count := error_count p + 1\<rparr>) (providers s),
          provider_failures := (provider_failures s)(n := f),
          last_error := (last_error s)(n := Some error_msg),
          last_failure_time := (last_failure_time s)(n := Some now),
          provider_enabled :=
            (if f \<ge> max_failures s then (provider_enabled s)(n := False) else provider_enabled s)\<rparr>)"

text \<open>
  \<^verbatim>\<open>_handle_rate_limit\<close>. \<open>extended_timeout\<close> is \<open>None\<close> when the argument is left
  out; Python also takes the value 0 as absent (\<^verbatim>\<open>if extended_timeout\<close>). \<^verbatim>\<open>//\<close> is
  floor division, as \<open>div\<close> on \<open>int\<close>.
\<close>

definition given :: "int option \<Rightarrow> bool" where
  "given extended_timeout = (case extended_timeout of None \<Rightarrow> False | Some e \<Rightarrow> e \<noteq> 0)"

definition reset_minutes :: "string \<Rightarrow> int option \<Rightarrow> int" where
  "reset_minutes error_msg extended_timeout =
     (let m0 = (if given extended_timeout then the extended_timeout div 60 else 4) in
      if \<not> given extended_timeout then
        (if contains ''day'' (lower error_msg) then 1440
         else if contains ''hour'' (lower error_msg) then 60
         else if contains ''minute'' (lower error_msg) then 10
         else m0)
      else m0)"

text \<open>
  \<^verbatim>\<open>timedelta(minutes=m)\<close> raises \<^verbatim>\<open>OverflowError\<close> unless its whole days,
  \<open>m div 1440\<close>, have magnitude at most 999999999. \<^verbatim>\<open>datetime.now() + delta\<close> raises
  \<^verbatim>\<open>OverflowError\<close> unless the sum lies in the years 1 to 9999; with the clock in
  seconds since 1970 these are the seconds from -62135596800 up to 253402300800.
\<close>

definition timedelta_in_range :: "int \<Rightarrow> bool" where
  "timedelta_in_range minutes = (- 999999999 \<le> minutes div 1440 \<and> minutes div 1440 \<le> 999999999)"

definition datetime_in_range :: "timestamp \<Rightarrow> bool" where
  "datetime_in_range t = (- 62135596800 \<le> t \<and> t < 253402300800)"

text \<open>
  The message of the \<^verbatim>\<open>OverflowError\<close> of \<^verbatim>\<open>timedelta\<close> for \<open>days\<close> whole days:
  days that do not fit a C \<^verbatim>\<open>int\<close> are reported as such.
\<close>

definition timedelta_overflow :: "int \<Rightarrow> string" where
  "timedelta_overflow days =
     (if days < - 2147483648 \<or> 2147483647 < days then ''Python int too large to convert to C int''
      else ''days='' @ str_int days @ ''; must have magnitude <= 999999999'')"

text \<open>\<^verbatim>\<open>self.rate_limits.get(provider_name, {}).get('attempts', 0)\<close>\<close>

definition prior_attempts :: "manager \<Rightarrow> string \<Rightarrow> int" where
  "prior_attempts s n = (case rate_limits s n of None \<Rightarrow> 0 | Some r \<Rightarrow> attempts r)"

text \<open>Lines 562--574: what \<^verbatim>\<open>_handle_rate_limit\<close> does once the reset time exists.\<close>

definition apply_rate_limit ::
  "string \<Rightarrow> string \<Rightarrow> int \<Rightarrow> timestamp \<Rightarrow> manager \<Rightarrow> manager" where
  "apply_rate_limit n error_msg minutes now s =
     (let entry = \<lparr>reset_time = now + 60 * real_of_int minutes,
                   attempts = prior_attempts s n + 1\<rparr>;
          s1 = s\<lparr>rate_limits := (rate_limits s)(n \<mapsto> entry)\<rparr>;
          s2 = record_failure n error_msg now s1
      in s2\<lparr>provider_enabled := (provider_enabled s2)(n := False),
            last_failure_time := (last_failure_time s2)(n := Some now)\<rparr>)"

text \<open>
  The result is the exception that leaves the method, if any, and the ledger. Both
  exceptions arise at line 560, before the ledger is touched.
\<close>

definition handle_rate_limit ::
  "string \<Rightarrow> string \<Rightarrow> int option \<Rightarrow> timestamp \<Rightarrow> manager \<Rightarrow> string option \<times> manager" where
  "handle_rate_limit n error_msg extended_timeout now s =
     (let minutes = reset_minutes error_msg extended_timeout in
      if \<not> timedelta_in_range minutes then (Some (timedelta_overflow (minutes div 1440)), s)
      else if \<not> datetime_in_range (now + 60 * real_of_int minutes) then
        (Some ''date value out of range'', s)
      else (None, apply_rate_limit n error_msg minutes now s))"

subsection \<open>Selection\<close>

text \<open>
  A loop \<^verbatim>\<open>for name, provider in self.providers.items()\<close> whose body mutates the
  entry \<^verbatim>\<open>provider\<close> and the ledger: the body is \<open>step\<close>, the loop returns the new
  entries and the ledger. No body reads \<^verbatim>\<open>self.providers\<close> itself.
\<close>

fun items_loop ::
  "(string \<Rightarrow> provider \<Rightarrow> manager \<Rightarrow> provider \<times> manager) \<Rightarrow>
   (string \<times> provider) list \<Rightarrow> manager \<Rightarrow> (string \<times> provider) list \<times> manager" where
  "items_loop step [] s = ([], s)"
| "items_loop step ((n, p) # ps) s =
     (let (p', s') = step n p s; (ps', s'') = items_loop step ps s' in ((n, p') # ps', s''))"

definition for_items ::
  "(string \<Rightarrow> provider \<Rightarrow> manager \<Rightarrow> provider \<times> manager) \<Rightarrow> manager \<Rightarrow> manager" where
  "for_items step s = (let (ps, s') = items_loop step (providers s) s in s'\<lparr>providers := ps\<rparr>)"

definition cooldown_duration :: real where
  "cooldown_duration = 600"

text \<open>
  \<^verbatim>\<open>provider.get('last_failure_time') and current_time - provider['last_failure_time'] > cooldown_duration\<close>:
  the time is read from the provider's own dictionary; \<open>None\<close> and 0 are false in Python.
\<close>

definition cooled_down :: "timestamp \<Rightarrow> provider \<Rightarrow> bool" where
  "cooled_down now p =
     (case dict_last_failure_time p of
        None \<Rightarrow> False
      | Some t \<Rightarrow> t \<noteq> 0 \<and> now - t > cooldown_duration)"

definition readmit :: "string \<Rightarrow> manager \<Rightarrow> manager" where
  "readmit n s =
     s\<lparr>provider_enabled := (provider_enabled s)(n := True),
       provider_failures := (provider_failures s)(n := 0),
       last_error := (last_error s)(n := None),
       last_failure_time := (last_failure_time s)(n := None)\<rparr>"

text \<open>
  The body of the first loop of \<^verbatim>\<open>get_best_provider\<close> (lines 174--197). Lines
  185--192 assign \<^verbatim>\<open>True\<close> to \<^verbatim>\<open>provider['available']\<close> again, which line 179 has
  already done.
\<close>

definition best_reconcile_step ::
  "timestamp \<Rightarrow> string \<Rightarrow> provider \<Rightarrow> manager \<Rightarrow> provider \<times> manager" where
  "best_reconcile_step now n p s =
     (if \<not> available p \<and> cooled_down now p then (p\<lparr>available := True\<rparr>, readmit n s)
      else if \<not> provider_enabled s n \<and> cooled_down now p then
        (p, s\<lparr>provider_enabled := (provider_enabled s)(n := True),
               last_failure_time := (last_failure_time s)(n := None)\<rparr>)
      else (p, s))"

text \<open>The body of the loop of \<^verbatim>\<open>_get_next_available_provider\<close> (lines 520--530).\<close>

definition next_reconcile_step ::
  "timestamp \<Rightarrow> string \<Rightarrow> provider \<Rightarrow> manager \<Rightarrow> provider \<times> manager" where
  "next_reconcile_step now n p s =
     (if (\<not> available p \<or> \<not> provider_enabled s n) \<and> cooled_down now p then
        (p\<lparr>available := True\<rparr>, readmit n s)
      else (p, s))"

text \<open>The body of the reset loop of \<^verbatim>\<open>get_best_provider\<close> (lines 208--216).\<close>

definition global_reset_step :: "string \<Rightarrow> provider \<Rightarrow> manager \<Rightarrow> provider \<times> manager" where
  "global_reset_step n p s =
     (if \<not> available p then (p, s)
      else if provider_failures s n > 0 then (p, readmit n s)
      else (p, s))"

definition sort_rank :: "manager \<Rightarrow> string \<times> provider \<Rightarrow> int \<times> int" where
  "sort_rank s x = (priority (snd x), provider_failures s (fst x))"

text \<open>
  \<^verbatim>\<open>available_providers.sort(key=...)\<close> and \<^verbatim>\<open>available_providers[0][0]\<close>, or
  \<^verbatim>\<open>None\<close> for the empty list. Python's sort is stable, as \<open>sort_key\<close> is.
\<close>

definition first_by_rank :: "manager \<Rightarrow> (string \<times> provider) list \<Rightarrow> string option" where
  "first_by_rank s av = (case sort_key (sort_rank s) av of [] \<Rightarrow> None | x # _ \<Rightarrow> Some (fst x))"

definition healthy :: "manager \<Rightarrow> (string \<times> provider) list" where
  "healthy s =
     filter (\<lambda>(n, p). available p \<and> provider_enabled s n \<and> provider_failures s n < max_failures s)
       (providers s)"

text \<open>\<^verbatim>\<open>get_best_provider\<close>\<close>

definition get_best_provider :: "timestamp \<Rightarrow> manager \<Rightarrow> string option \<times> manager" where
  "get_best_provider now s =
     (let s1 = for_items (best_reconcile_step now) s in
      if healthy s1 = [] then
        (let s2 = for_items global_reset_step s1;
             av = filter (\<lambda>(n, p). available p \<and> provider_enabled s2 n) (providers s2)
         in (first_by_rank s2 av, s2))
      else (first_by_rank s1 (healthy s1), s1))"

definition candidates :: "string list \<Rightarrow> manager \<Rightarrow> (string \<times> provider) list" where
  "candidates exclude s =
     filter (\<lambda>(n, p). n \<notin> set exclude \<and> available p \<and> provider_enabled s n \<and>
                      provider_failures s n < max_failures s)
       (providers s)"

text \<open>\<^verbatim>\<open>_get_next_available_provider\<close>\<close>

definition get_next_available_provider ::
  "string list \<Rightarrow> timestamp \<Rightarrow> manager \<Rightarrow> string option \<times> manager" where
  "get_next_available_provider exclude now s =
     (let s1 = for_items (next_reconcile_step now) s in (first_by_rank s1 (candidates exclude s1), s1))"

text \<open>
  \<^verbatim>\<open>reset_provider_errors\<close>. An empty name is false in Python and resets every
  provider, like \<^verbatim>\<open>None\<close>.
\<close>

definition library_present :: "libs \<Rightarrow> string \<Rightarrow> bool" where
  "library_present L n =
     ((n = ''gemini'' \<and> has_gemini L) \<or> (n = ''groq'' \<and> has_groq_client L) \<or>
      (n = ''openai'' \<and> has_openai L))"

definition admin_reset_step :: "libs \<Rightarrow> string \<Rightarrow> provider \<Rightarrow> manager \<Rightarrow> provider \<times> manager" where
  "admin_reset_step L n p s =
     (let p1 = p\<lparr>error_count := 0, consecutive_failures := 0\<rparr>;
          p2 = (if has_client p1 \<or> library_present L n then p1\<lparr>available := True\<rparr> else p1)
      in (p2, readmit n s))"

definition reset_provider_errors :: "libs \<Rightarrow> string option \<Rightarrow> manager \<Rightarrow> manager" where
  "reset_provider_errors L provider_name s =
     (case provider_name of
        Some n \<Rightarrow>
          if n \<noteq> [] then
            (if n \<in> names s then
               readmit n
                 (upd_provider n
                    (\<lambda>p. fst (admin_reset_step L n p s)) s)
             else s)
          else for_items (admin_reset_step L) s
      | None \<Rightarrow> for_items (admin_reset_step L) s)"

subsection \<open>Calling a backend\<close>

text \<open>
  The backends are outside the program: what a client answers is an input of the model.
  \<open>Returns t\<close> is a response whose text is \<open>t\<close> (possibly empty), \<open>Raises m\<close> an
  exception whose \<^verbatim>\<open>str\<close> is \<open>m\<close>. For HuggingFace, \<open>HfOk t\<close> is status 200 with
  \<^verbatim>\<open>generated_text\<close> \<open>t\<close>, \<open>HfStatus c body\<close> any status other than 200, and
  \<open>HfRaises m\<close> an exception of the request or of decoding the answer. Each backend
  receives the prompt and the token budget that the source computes for it.
\<close>

datatype outcome = Returns string | Raises string

datatype hf_outcome = HfOk string | HfStatus int string | HfRaises string

record backends =
  gemini_client :: "string \<Rightarrow> int \<Rightarrow> outcome"
  groq_client :: "string \<Rightarrow> int \<Rightarrow> outcome"
  openai_client :: "string \<Rightarrow> int \<Rightarrow> outcome"
  hf_post :: "string \<Rightarrow> string \<Rightarrow> int \<Rightarrow> hf_outcome"

text \<open>
  The calls made to the backends, in order: the provider and the token budget it was
  given. This is the observable effect of a request besides the ledger.
\<close>

type_synonym invocation = "string \<times> int"

type_synonym 'a call = "'a \<times> invocation list \<times> manager"

definition key_error :: "string \<Rightarrow> string" where
  "key_error k = [CHR 0x27] @ k @ [CHR 0x27]"

text \<open>
  The \<^verbatim>\<open>except\<close> clause that \<^verbatim>\<open>_generate_with_gemini\<close>, \<^verbatim>\<open>_generate_with_groq\<close>
  and \<^verbatim>\<open>_generate_with_openai\<close> share: it records the failure under \<open>key\<close> and
  raises the exception again. The result is the message of the exception that leaves
  the clause, which is that of \<^verbatim>\<open>_handle_rate_limit\<close> when that call raises, and the
  ledger.
\<close>

definition own_except ::
  "string \<Rightarrow> string \<Rightarrow> int option \<Rightarrow> string \<Rightarrow> timestamp \<Rightarrow> manager \<Rightarrow> string \<times> manager" where
  "own_except n key extended_timeout error_msg now s =
     (if is_rate_limit error_msg then
        (case handle_rate_limit key error_msg extended_timeout now s of
           (Some overflow, s') \<Rightarrow> (overflow, s')
         | (None, s') \<Rightarrow> (error_msg, s'))
      else (error_msg, record_failure n error_msg now s))"

text \<open>The body of the \<^verbatim>\<open>try\<close> of the three: a text that is not empty, or an exception.\<close>

definition text_or_raise :: "string \<Rightarrow> outcome \<Rightarrow> string + string" where
  "text_or_raise empty_msg r =
     (case r of Returns t \<Rightarrow> if t \<noteq> [] then Inr t else Inl empty_msg | Raises m \<Rightarrow> Inl m)"

text \<open>
  \<^verbatim>\<open>_generate_with_gemini\<close>. Its rate-limit branch files the failure under the model
  label \<^verbatim>\<open>self.providers['gemini']['model']\<close>, not under \<^verbatim>\<open>'gemini'\<close>.
\<close>

definition generate_with_gemini ::
  "backends \<Rightarrow> string \<Rightarrow> int \<Rightarrow> timestamp \<Rightarrow> manager \<Rightarrow> (string + string) call" where
  "generate_with_gemini B prompt max_tokens now s =
     (case map_of (providers s) ''gemini'' of
        None \<Rightarrow> (Inl (key_error ''gemini''), [], s)
      | Some p \<Rightarrow>
          if \<not> has_client p then (Inl ''Cliente Gemini nao inicializado.'', [], s)
          else
            let budget = min max_tokens 8192 in
            (case text_or_raise ''Resposta vazia do Gemini'' (gemini_client B prompt budget) of
               Inr t \<Rightarrow> (Inr t, [(''gemini'', budget)], s)
             | Inl m \<Rightarrow>
                 (case own_except ''gemini'' (model p) (Some 600) m now s of
                    (e, s') \<Rightarrow> (Inl e, [(''gemini'', budget)], s'))))"

text \<open>\<^verbatim>\<open>_generate_with_groq\<close>\<close>

definition generate_with_groq ::
  "backends \<Rightarrow> string \<Rightarrow> int \<Rightarrow> timestamp \<Rightarrow> manager \<Rightarrow> (string + string) call" where
  "generate_with_groq B prompt max_tokens now s =
     (case map_of (providers s) ''groq'' of
        None \<Rightarrow> (Inl (key_error ''groq''), [], s)
      | Some p \<Rightarrow>
          if \<not> has_client p then (Inl ''Cliente Groq nao inicializado.'', [], s)
          else
            let budget = min max_tokens 8192 in
            (case text_or_raise ''Resposta vazia do Groq'' (groq_client B prompt budget) of
               Inr t \<Rightarrow> (Inr t, [(''groq'', budget)], s)
             | Inl m \<Rightarrow>
                 (case own_except ''groq'' ''groq'' None m now s of
                    (e, s') \<Rightarrow> (Inl e, [(''groq'', budget)], s'))))"

text \<open>\<^verbatim>\<open>_generate_with_openai\<close>\<close>

definition generate_with_openai ::
  "backends \<Rightarrow> string \<Rightarrow> int \<Rightarrow> timestamp \<Rightarrow> manager \<Rightarrow> (string + string) call" where
  "generate_with_openai B prompt max_tokens now s =
     (case map_of (providers s) ''openai'' of
        None \<Rightarrow> (Inl (key_error ''openai''), [], s)
      | Some p \<Rightarrow>
          if \<not> has_client p then (Inl ''Cliente OpenAI nao inicializado.'', [], s)
          else
            let budget = min max_tokens 4096 in
            (case text_or_raise ''Resposta vazia do OpenAI'' (openai_client B prompt budget) of
               Inr t \<Rightarrow> (Inr t, [(''openai'', budget)], s)
             | Inl m \<Rightarrow>
                 (case own_except ''openai'' ''openai'' None m now s of
                    (e, s') \<Rightarrow> (Inl e, [(''openai'', budget)], s'))))"

text \<open>
  The loop of \<^verbatim>\<open>_generate_with_huggingface\<close>, \<open>k\<close> iterations left. A status 200
  with an empty text falls through to the next iteration and records nothing. The
  branch for the other statuses runs inside the \<^verbatim>\<open>try\<close>, so an exception of
  \<^verbatim>\<open>_handle_rate_limit\<close> is caught there and recorded as a failure.
\<close>

definition after_post :: "hf_outcome \<Rightarrow> timestamp \<Rightarrow> manager \<Rightarrow> manager" where
  "after_post r now s =
     (case r of
        HfOk t \<Rightarrow> s
      | HfStatus code body \<Rightarrow>
          if code = 503 then s
          else
            let error_msg = ''Erro '' @ str_int code @ '': '' @ body in
            if code = 429 then
              (case handle_rate_limit ''huggingface'' error_msg None now s of
                 (Some overflow, s') \<Rightarrow> record_failure ''huggingface'' overflow now s'
               | (None, s') \<Rightarrow> s')
            else record_failure ''huggingface'' error_msg now s
      | HfRaises m \<Rightarrow> record_failure ''huggingface'' m now s)"

text \<open>The text of a status 200 answer; every other answer has none to return.\<close>

definition generated_text :: "hf_outcome \<Rightarrow> string" where
  "generated_text r = (case r of HfOk t \<Rightarrow> t | HfStatus code body \<Rightarrow> [] | HfRaises m \<Rightarrow> [])"

fun hf_loop ::
  "backends \<Rightarrow> string \<Rightarrow> int \<Rightarrow> timestamp \<Rightarrow> nat \<Rightarrow> manager \<Rightarrow> (string + string) call" where
  "hf_loop B prompt max_tokens now 0 s = (Inl ''Todos os modelos HuggingFace falharam'', [], s)"
| "hf_loop B prompt max_tokens now (Suc k) s =
     (case map_of (providers s) ''huggingface'' of
        None \<Rightarrow> (Inl (key_error ''huggingface''), [], s)
      | Some config \<Rightarrow>
          let model_index = current_model_index config in
          if model_index \<ge> length (models config) then (Inl ''list index out of range'', [], s)
          else
            let m = models config ! model_index;
                s1 = upd_provider ''huggingface''
                       (\<lambda>p. p\<lparr>current_model_index := (model_index + 1) mod length (models config)\<rparr>) s;
                budget = min max_tokens 1024;
                r = hf_post B m prompt budget
            in
            if generated_text r \<noteq> [] then (Inr (generated_text r), [(''huggingface'', budget)], s1)
            else
              (case hf_loop B prompt max_tokens now k (after_post r now s1) of
                 (res, calls, s2) \<Rightarrow> (res, (''huggingface'', budget) # calls, s2)))"

text \<open>\<^verbatim>\<open>_generate_with_huggingface\<close>\<close>

definition generate_with_huggingface ::
  "backends \<Rightarrow> string \<Rightarrow> int \<Rightarrow> timestamp \<Rightarrow> manager \<Rightarrow> (string + string) call" where
  "generate_with_huggingface B prompt max_tokens now s =
     (case map_of (providers s) ''huggingface'' of
        None \<Rightarrow> (Inl (key_error ''huggingface''), [], s)
      | Some config \<Rightarrow>
          if \<not> has_client config then (Inl ''Cliente HuggingFace nao inicializado.'', [], s)
          else hf_loop B prompt max_tokens now (length (models config)) s)"

text \<open>
  \<^verbatim>\<open>_call_provider\<close>: \<open>Inl m\<close> when the call raised, \<open>Inr (Some t)\<close> when it
  returned a text, \<open>Inr None\<close> when it returned \<^verbatim>\<open>None\<close> (an unknown name).
\<close>

definition with_text :: "(string + string) call \<Rightarrow> (string + string option) call" where
  "with_text c = (case c of (r, calls, s) \<Rightarrow> (map_sum id Some r, calls, s))"

definition call_provider ::
  "backends \<Rightarrow> string \<Rightarrow> string \<Rightarrow> int \<Rightarrow> timestamp \<Rightarrow> manager \<Rightarrow> (string + string option) call" where
  "call_provider B n prompt max_tokens now s =
     (if n = ''gemini'' then with_text (generate_with_gemini B prompt max_tokens now s)
      else if n = ''groq'' then with_text (generate_with_groq B prompt max_tokens now s)
      else if n = ''openai'' then with_text (generate_with_openai B prompt max_tokens now s)
      else if n = ''huggingface'' then with_text (generate_with_huggingface B prompt max_tokens now s)
      else (Inr None, [], s))"

subsection \<open>Dispatching one request\<close>

text \<open>
  What a call of \<^verbatim>\<open>_try_providers\<close> ends with: \<^verbatim>\<open>None\<close>, the dictionary
  \<^verbatim>\<open>response_data\<close> (response, provider, estimated tokens; \<^verbatim>\<open>success\<close> is always
  true), what \<^verbatim>\<open>_handle_provider_failure\<close> returned, which is the name that
  \<^verbatim>\<open>_get_next_available_provider\<close> selected, or an exception that no handler caught.
\<close>

datatype reply = Nothing | Generated string string real | NextProvider string | Raised string

text \<open>
  Lines 322--334 of \<^verbatim>\<open>_handle_provider_failure\<close>: classify and record. The result is
  the exception of \<^verbatim>\<open>_handle_rate_limit\<close>, if it raised, and the ledger.
\<close>

definition classify_failure ::
  "string option \<Rightarrow> string \<Rightarrow> timestamp \<Rightarrow> manager \<Rightarrow> string option \<times> manager" where
  "classify_failure provider_name error_str now s =
     (case provider_name of
        None \<Rightarrow> (None, s)
      | Some n \<Rightarrow>
          if n = [] then (None, s)
          else if is_rate_limit error_str then
            (if n = ''gemini'' then handle_rate_limit n error_str (Some 600) now s
             else handle_rate_limit n error_str None now s)
          else (None, record_failure n error_str now s))"

text \<open>
  \<^verbatim>\<open>_handle_provider_failure\<close>: \<open>Inl\<close> when line 330 or 332 raised, else \<open>Inr\<close> of what
  \<^verbatim>\<open>_get_next_available_provider\<close> returned.
\<close>

definition handle_provider_failure ::
  "string option \<Rightarrow> string \<Rightarrow> timestamp \<Rightarrow> manager \<Rightarrow> (string + string option) \<times> manager" where
  "handle_provider_failure provider_name error_str now s =
     (case classify_failure provider_name error_str now s of
        (Some overflow, s1) \<Rightarrow> (Inl overflow, s1)
      | (None, s1) \<Rightarrow>
          (case get_next_available_provider
                  (case provider_name of None \<Rightarrow> [] | Some n \<Rightarrow> if n = [] then [] else [n])
                  now s1 of
             (r, s2) \<Rightarrow> (Inr r, s2)))"

definition as_reply :: "string option \<Rightarrow> reply" where
  "as_reply r = (case r of None \<Rightarrow> Nothing | Some n \<Rightarrow> NextProvider n)"

text \<open>The keyword arguments that \<^verbatim>\<open>_try_providers\<close> receives.\<close>

record kwargs =
  kw_max_tokens :: "int option"
  kw_temperature :: "real option"

definition first_attempt_failed :: string where
  "first_attempt_failed = ''Falha na primeira tentativa de gerar resposta.''"

text \<open>
  Line 627, in the \<^verbatim>\<open>except\<close> clause of \<^verbatim>\<open>_try_providers\<close>: the value of
  \<^verbatim>\<open>_handle_provider_failure\<close> is returned, and an exception of it leaves
  \<^verbatim>\<open>_try_providers\<close>.
\<close>

definition give_up ::
  "string \<Rightarrow> string \<Rightarrow> invocation list \<Rightarrow> timestamp \<Rightarrow> manager \<Rightarrow> reply call" where
  "give_up n error_str calls now s =
     (case handle_provider_failure (Some n) error_str now s of
        (Inl overflow, s') \<Rightarrow> (Raised overflow, calls, s')
      | (Inr r, s') \<Rightarrow> (as_reply r, calls, s'))"

text \<open>
  Line 623, inside the \<^verbatim>\<open>try\<close>: an exception of \<^verbatim>\<open>_handle_provider_failure\<close> is
  caught by the \<^verbatim>\<open>except\<close> clause, which runs line 627 with it.
\<close>

definition give_up_in_try ::
  "string \<Rightarrow> invocation list \<Rightarrow> timestamp \<Rightarrow> manager \<Rightarrow> reply call" where
  "give_up_in_try n calls now s =
     (case handle_provider_failure (Some n) first_attempt_failed now s of
        (Inl overflow, s') \<Rightarrow> give_up n overflow calls now s'
      | (Inr r, s') \<Rightarrow> (as_reply r, calls, s'))"

text \<open>\<^verbatim>\<open>_try_providers\<close>\<close>

definition try_providers ::
  "backends \<Rightarrow> string \<Rightarrow> string \<Rightarrow> kwargs \<Rightarrow> timestamp \<Rightarrow> manager \<Rightarrow> reply call" where
  "try_providers B method prompt kw now s =
     (case get_best_provider now s of
        (None, s1) \<Rightarrow> (Nothing, [], s1)
      | (Some n, s1) \<Rightarrow>
          if n = [] then (Nothing, [], s1)
          else if method = ''generate'' then
            (case call_provider B n prompt (case kw_max_tokens kw of None \<Rightarrow> 1000 | Some m \<Rightarrow> m) now s1 of
               (Inl e, calls, s2) \<Rightarrow> give_up n e calls now s2
             | (Inr (Some response), calls, s2) \<Rightarrow>
                 if response \<noteq> [] then
                   (Generated response n (real (length (split_words [] response)) * 1.3), calls,
                    record_success n now s2)
                 else
                   give_up_in_try n calls now
                     (record_failure n ''Resposta vazia do provedor.'' now s2)
             | (Inr None, calls, s2) \<Rightarrow>
                 give_up_in_try n calls now
                   (record_failure n ''Resposta vazia do provedor.'' now s2))
          else give_up_in_try n [] now s1)"

text \<open>\<^verbatim>\<open>generate_analysis\<close>\<close>

definition generate_analysis ::
  "backends \<Rightarrow> string \<Rightarrow> int \<Rightarrow> real \<Rightarrow> timestamp \<Rightarrow> manager \<Rightarrow> reply call" where
  "generate_analysis B prompt max_tokens temperature now s =
     try_providers B ''generate'' prompt
       \<lparr>kw_max_tokens = Some max_tokens, kw_temperature = Some temperature\<rparr> now s"

subsection \<open>Reference values and sample inputs\<close>

text \<open>
  The token caps as the specification lists them: 8192 for gemini and groq, 4096 for
  openai, 1024 for huggingface.
\<close>

definition token_cap :: "string \<Rightarrow> int" where
  "token_cap n =
     (if n = ''gemini'' \<or> n = ''groq'' then 8192
      else if n = ''openai'' then 4096
      else if n = ''huggingface'' then 1024
      else 0)"

text \<open>Backends for the examples: gemini raises \<open>msg\<close>, every other backend answers.\<close>

definition gemini_fails :: "string \<Rightarrow> backends" where
  "gemini_fails msg =
     \<lparr>gemini_client = (\<lambda>prompt budget. Raises msg),
      groq_client = (\<lambda>prompt budget. Returns ''ok''),
      openai_client = (\<lambda>prompt budget. Returns ''ok''),
      hf_post = (\<lambda>m prompt budget. HfOk ''ok'')\<rparr>"

text \<open>A manager with gemini, groq and openai constructed and huggingface not.\<close>

definition three_up :: manager where
  "three_up = init_manager True True True False"


text \<open>
  The minutes that the specification reads from the error text: 1440 for "day", else 60
  for "hour", else 10 for "minute", else 4.
\<close>

definition hint_minutes :: "string \<Rightarrow> int" where
  "hint_minutes error_msg =
     (if contains ''day'' (lower error_msg) then 1440
      else if contains ''hour'' (lower error_msg) then 60
      else if contains ''minute'' (lower error_msg) then 10
      else 4)"

text \<open>
  Whether the reset loop over the entries \<open>ps\<close> resets \<open>n\<close>: an entry of \<open>n\<close> is
  available and \<open>n\<close> has failures.
\<close>

definition was_reset :: "(string \<times> provider) list \<Rightarrow> manager \<Rightarrow> string \<Rightarrow> bool" where
  "was_reset ps s n = (list_ex (\<lambda>x. fst x = n \<and> available (snd x)) ps \<and> provider_failures s n > 0)"

text \<open>A manager after two failure recordings for gemini, one after the other.\<close>

definition two_failures :: manager where
  "two_failures = record_failure ''gemini'' ''boom'' 2 (record_failure ''gemini'' ''boom'' 1 three_up)"

text \<open>A manager whose three constructed providers have each been rate-limited at time 0.\<close>

definition all_limited :: manager where
  "all_limited =
     snd (handle_rate_limit ''openai'' ''quota exceeded'' None 0
       (snd (handle_rate_limit ''groq'' ''quota exceeded'' None 0
          (snd (handle_rate_limit ''gemini'' ''quota exceeded'' (Some 600) 0 three_up)))))"

text \<open>
  \<^verbatim>\<open>_record_failure\<close> applied to \<open>n\<close> once for each event (message, time) of
  \<open>evs\<close>, in order, with nothing in between.
\<close>

definition record_failures :: "string \<Rightarrow> (string \<times> timestamp) list \<Rightarrow> manager \<Rightarrow> manager" where
  "record_failures n evs s = fold (\<lambda>ev. record_failure n (fst ev) (snd ev)) evs s"

text \<open>
  Selection as the specification words it: keep the providers that are available and
  enabled, have fewer consecutive failures than the threshold and are not excluded; sort
  them ascending by (priority rank, consecutive failures); return the first, or none.
\<close>

definition passes :: "string list \<Rightarrow> manager \<Rightarrow> string \<times> provider \<Rightarrow> bool" where
  "passes exclude s x =
     (available (snd x) \<and> provider_enabled s (fst x)
      \<and> provider_failures s (fst x) < max_failures s \<and> fst x \<notin> set exclude)"

definition select_best :: "string list \<Rightarrow> manager \<Rightarrow> string option" where
  "select_best exclude s =
     (case sort_key (\<lambda>x. (priority (snd x), provider_failures s (fst x)))
             (filter (passes exclude s) (providers s)) of
        [] \<Rightarrow> None
      | x # _ \<Rightarrow> Some (fst x))"

text \<open>
  The ledger after one request, and after a second one, during which gemini raised the
  generic error \<open>boom\<close>.
\<close>

definition after_first_request :: manager where
  "after_first_request = snd (snd (generate_analysis (gemini_fails ''boom'') ''p'' 1000 0.7 1 three_up))"

definition after_second_request :: manager where
  "after_second_request =
     snd (snd (generate_analysis (gemini_fails ''boom'') ''p'' 1000 0.7 2 after_first_request))"

text \<open>The ledger after gemini was rate-limited at time 0.\<close>

definition gemini_limited :: manager where
  "gemini_limited = snd (classify_failure (Some ''gemini'') ''429 quota exceeded'' 0 three_up)"

text \<open>Groq after one and after two rate-limited failures, at times 5 and 9.\<close>

definition groq_limited_once :: manager where
  "groq_limited_once =
     snd (classify_failure (Some ''groq'') ''Error 429: Too Many Requests, retry in 1 hour'' 5 three_up)"

definition groq_limited_twice :: manager where
  "groq_limited_twice =
     snd (classify_failure (Some ''groq'') ''Error 429: Too Many Requests, retry in 1 hour'' 9
            groq_limited_once)"

text \<open>
  A manager with only gemini constructed, and the same after three failure recordings
  for gemini in a row, the last at time 5.
\<close>

definition gemini_only :: manager where
  "gemini_only = init_manager True False False False"

definition gemini_failed_thrice :: manager where
  "gemini_failed_thrice =
     record_failures ''gemini'' [(''boom'', 3), (''boom'', 4), (''boom'', 5)] gemini_only"

text \<open>
  The forced reset as the specification words it: every provider that is available and
  has consecutive failures loses them and is enabled again, its last error and last
  failure time cleared; nothing else changes.
\<close>

definition forced_reset :: "manager \<Rightarrow> manager" where
  "forced_reset s =
     s\<lparr>provider_failures :=
         (\<lambda>n. if list_ex (\<lambda>x. fst x = n \<and> available (snd x)) (providers s) \<and> 0 < provider_failures s n
              then 0 else provider_failures s n),
       provider_enabled :=
         (\<lambda>n. if list_ex (\<lambda>x. fst x = n \<and> available (snd x)) (providers s) \<and> 0 < provider_failures s n
              then True else provider_enabled s n),
       last_error :=
         (\<lambda>n. if list_ex (\<lambda>x. fst x = n \<and> available (snd x)) (providers s) \<and> 0 < provider_failures s n
              then None else last_error s n),
       last_failure_time :=
         (\<lambda>n. if list_ex (\<lambda>x. fst x = n \<and> available (snd x)) (providers s) \<and> 0 < provider_failures s n
              then None else last_failure_time s n)\<rparr>"

text \<open>
  The last failure of \<open>n\<close> is on record and at most the cooldown of 600 s lies between
  it and \<open>now\<close>.
\<close>

definition within_cooldown :: "timestamp \<Rightarrow> manager \<Rightarrow> string \<Rightarrow> bool" where
  "within_cooldown now s n =
     (case last_failure_time s n of None \<Rightarrow> False | Some t \<Rightarrow> now - t \<le> 600)"

subsection \<open>Reachable ledgers\<close>

text \<open>
  The states that the manager can be in: what \<^verbatim>\<open>__init__\<close> builds, and what any
  method of the class makes of a reachable state, for any arguments, clock readings and
  backend answers.
\<close>

inductive reachable :: "manager \<Rightarrow> bool" where
  start: "reachable (init_manager gemini_up groq_up openai_up hf_up)"
| success: "reachable s \<Longrightarrow> reachable (record_success n now s)"
| failure: "reachable s \<Longrightarrow> reachable (record_failure n error_msg now s)"
| rate_limited: "reachable s \<Longrightarrow> reachable (snd (handle_rate_limit n error_msg extended_timeout now s))"
| best: "reachable s \<Longrightarrow> reachable (snd (get_best_provider now s))"
| next_available: "reachable s \<Longrightarrow> reachable (snd (get_next_available_provider exclude now s))"
| admin_reset: "reachable s \<Longrightarrow> reachable (reset_provider_errors L provider_name s)"
| generate: "reachable s \<Longrightarrow> reachable (snd (snd (generate_analysis B prompt max_tokens temperature now s)))"

text \<open>
  What holds of the counters in every reachable state, for the names \<open>N\<close> of the
  providers: no count is negative, a disabled provider has failed at least once, a
  provider at the threshold is disabled, and the threshold is 3.
\<close>

definition counters_ok :: "string set \<Rightarrow> manager \<Rightarrow> bool" where
  "counters_ok N s =
     ((\<forall>n. 0 \<le> provider_failures s n)
      \<and> (\<forall>n\<in>N. \<not> provider_enabled s n \<longrightarrow> 0 < provider_failures s n)
      \<and> (\<forall>n. max_failures s \<le> provider_failures s n \<longrightarrow> \<not> provider_enabled s n)
      \<and> max_failures s = 3)"

text \<open>No provider dictionary carries a \<^verbatim>\<open>'last_failure_time'\<close>.\<close>

definition no_dict_time :: "(string \<times> provider) list \<Rightarrow> bool" where
  "no_dict_time ps = list_all (\<lambda>x. dict_last_failure_time (snd x) = None) ps"

definition ledger_inv :: "manager \<Rightarrow> bool" where
  "ledger_inv s = (counters_ok (names s) s \<and> no_dict_time (providers s))"

section \<open>Properties\<close>

subsection \<open>Association lists\<close>

lemma map_fst_map_entry [simp]: "map fst (AList.map_entry n f ps) = map fst ps"
  by (induction ps) auto

lemma map_of_map_entry_other: "m \<noteq> n \<Longrightarrow> map_of (AList.map_entry n f ps) m = map_of ps m"
  by (simp add: map_of_map_entry)

lemma map_of_map_entry_same:
  "map_of (AList.map_entry n f ps) n = map_option f (map_of ps n)"
  by (simp add: map_of_map_entry split: option.splits)

lemma names_init: "names (init_manager a b c d) = {''gemini'', ''groq'', ''openai'', ''huggingface''}"
  by (auto simp: names_def init_manager_def)

subsection \<open>Recording a success\<close>

text \<open>
  C8. For a registered provider \<open>n\<close> and any prior state, \<open>record_success\<close> sets the
  consecutive failures of \<open>n\<close> to 0 and its enabled flag to true, clears its last error and
  last failure time, and sets its \<open>last_success\<close> to \<open>now\<close>. The entry of \<open>n\<close> changes
  in \<open>consecutive_failures\<close> and \<open>last_success\<close> only, so its \<open>error_count\<close> is kept;
  every other provider's entry and ledger values, the rate-limit records and the
  threshold are unchanged.
\<close>

theorem record_success_effect:
  assumes "n \<in> names s"
  shows "provider_failures (record_success n now s) n = 0
       \<and> provider_enabled (record_success n now s) n
       \<and> last_error (record_success n now s) n = None
       \<and> last_failure_time (record_success n now s) n = None
       \<and> (\<exists>p. map_of (providers s) n = Some p
              \<and> map_of (providers (record_success n now s)) n
                  = Some (p\<lparr>consecutive_failures := 0, last_success := Some now\<rparr>)
              \<and> error_count (the (map_of (providers (record_success n now s)) n)) = error_count p)
       \<and> (\<forall>m. m \<noteq> n \<longrightarrow>
              map_of (providers (record_success n now s)) m = map_of (providers s) m
            \<and> provider_failures (record_success n now s) m = provider_failures s m
            \<and> provider_enabled (record_success n now s) m = provider_enabled s m
            \<and> last_error (record_success n now s) m = last_error s m
            \<and> last_failure_time (record_success n now s) m = last_failure_time s m)
       \<and> map fst (providers (record_success n now s)) = map fst (providers s)
       \<and> rate_limits (record_success n now s) = rate_limits s
       \<and> max_failures (record_success n now s) = max_failures s"
proof -
  from assms obtain p where p: "map_of (providers s) n = Some p"
    by (auto simp: names_def dest: weak_map_of_SomeI)
  show ?thesis
    using assms p by (simp add: record_success_def map_of_map_entry_same map_of_map_entry_other)
qed

theorem record_success_effect_witness:
  "provider_failures (record_success ''groq'' 7 (record_failure ''groq'' ''boom'' 5 three_up)) ''groq'' = 0
   \<and> provider_enabled (record_success ''groq'' 7 (record_failure ''groq'' ''boom'' 5 three_up)) ''groq''
   \<and> map_option error_count
       (map_of (providers (record_success ''groq'' 7 (record_failure ''groq'' ''boom'' 5 three_up))) ''groq'') = Some 1
   \<and> map_option last_success
       (map_of (providers (record_success ''groq'' 7 (record_failure ''groq'' ''boom'' 5 three_up))) ''groq'') = Some (Some 7)"
proof -
  have h: "''groq'' \<in> names (record_failure ''groq'' ''boom'' 5 three_up)"
    by (simp add: names_def record_failure_def three_up_def init_manager_def)
  have e: "map_option error_count (map_of (providers (record_failure ''groq'' ''boom'' 5 three_up)) ''groq'') = Some 1"
    by (simp add: names_def record_failure_def three_up_def init_manager_def mk_provider_def)
  from record_success_effect [OF h, of 7] e show ?thesis
    by auto
qed

subsection \<open>Token budgets\<close>

lemma hf_loop_budget:
  "list_all (\<lambda>c. c = (''huggingface'', min max_tokens 1024))
     (fst (snd (hf_loop B prompt max_tokens now k s)))"
proof (induction k arbitrary: s)
  case 0
  show ?case by simp
next
  case (Suc k)
  show ?case
  proof (cases "map_of (providers s) ''huggingface''")
    case None
    then show ?thesis by simp
  next
    case (Some config)
    define s1 where "s1 = upd_provider ''huggingface''
        (\<lambda>p. p\<lparr>current_model_index := (current_model_index config + 1) mod length (models config)\<rparr>) s"
    define r where
      "r = hf_post B (models config ! current_model_index config) prompt (min max_tokens 1024)"
    obtain res calls s2 where
      rest: "hf_loop B prompt max_tokens now k (after_post r now s1) = (res, calls, s2)"
      by (cases "hf_loop B prompt max_tokens now k (after_post r now s1)") auto
    from Suc.IH [of "after_post r now s1"] rest
    have "list_all (\<lambda>c. c = (''huggingface'', min max_tokens 1024)) calls" by simp
    with Some rest show ?thesis
      by (simp add: Let_def s1_def r_def)
  qed
qed

lemma gemini_budget:
  "list_all (\<lambda>c. c = (''gemini'', min max_tokens 8192))
     (fst (snd (generate_with_gemini B prompt max_tokens now s)))"
  by (simp add: generate_with_gemini_def Let_def split: option.splits sum.splits prod.splits)

lemma groq_budget:
  "list_all (\<lambda>c. c = (''groq'', min max_tokens 8192))
     (fst (snd (generate_with_groq B prompt max_tokens now s)))"
  by (simp add: generate_with_groq_def Let_def split: option.splits sum.splits prod.splits)

lemma openai_budget:
  "list_all (\<lambda>c. c = (''openai'', min max_tokens 4096))
     (fst (snd (generate_with_openai B prompt max_tokens now s)))"
  by (simp add: generate_with_openai_def Let_def split: option.splits sum.splits prod.splits)

lemma huggingface_budget:
  "list_all (\<lambda>c. c = (''huggingface'', min max_tokens 1024))
     (fst (snd (generate_with_huggingface B prompt max_tokens now s)))"
  by (simp add: generate_with_huggingface_def hf_loop_budget split: option.splits)

lemma calls_with_text [simp]: "fst (snd (with_text c)) = fst (snd c)"
  by (cases c) (simp add: with_text_def)

lemma call_provider_budget:
  "list_all (\<lambda>c. c = (n, min max_tokens (token_cap n)))
     (fst (snd (call_provider B n prompt max_tokens now s)))"
  by (simp add: call_provider_def token_cap_def gemini_budget groq_budget openai_budget
      huggingface_budget)

lemma calls_give_up [simp]: "fst (snd (give_up n e calls now s)) = calls"
  by (simp add: give_up_def split: prod.splits sum.splits)

lemma calls_give_up_in_try [simp]: "fst (snd (give_up_in_try n calls now s)) = calls"
  by (simp add: give_up_in_try_def split: prod.splits sum.splits)

lemma try_providers_calls:
  "fst (snd (try_providers B method prompt kw now s)) = [] \<or>
   (\<exists>n s1. fst (snd (try_providers B method prompt kw now s)) =
      fst (snd (call_provider B n prompt (case kw_max_tokens kw of None \<Rightarrow> 1000 | Some m \<Rightarrow> m) now s1)))"
proof (cases "get_best_provider now s")
  case (Pair sel s1)
  show ?thesis
  proof (cases sel)
    case None
    with Pair show ?thesis by (simp add: try_providers_def)
  next
    case (Some n)
    let ?c = "call_provider B n prompt (case kw_max_tokens kw of None \<Rightarrow> 1000 | Some m \<Rightarrow> m) now s1"
    obtain r calls s2 where c: "?c = (r, calls, s2)" by (cases ?c) auto
    have "fst (snd (try_providers B method prompt kw now s)) = [] \<or>
          fst (snd (try_providers B method prompt kw now s)) = calls"
      using Pair Some c
      by (simp add: try_providers_def split: sum.splits option.splits)
    with c show ?thesis by (metis fst_conv snd_conv)
  qed
qed



subsection \<open>The temperature argument\<close>

text \<open>
  C10. \<open>generate_analysis\<close> returns the same reply, makes the same backend calls and
  leaves the same ledger for any two values of the temperature argument.
\<close>

theorem temperature_ignored:
  "generate_analysis B prompt max_tokens t1 now s = generate_analysis B prompt max_tokens t2 now s"
  unfolding generate_analysis_def try_providers_def
  by (simp cong: prod.case_cong option.case_cong if_cong sum.case_cong)

theorem temperature_ignored_witness:
  "generate_analysis (gemini_fails ''boom'') ''p'' 100 0 0 three_up
   = generate_analysis (gemini_fails ''boom'') ''p'' 100 2 0 three_up"
  by (rule temperature_ignored)

subsection \<open>Rate limits\<close>

lemma rate_limits_record_failure [simp]:
  "rate_limits (record_failure n msg now s) = rate_limits s"
  by (simp add: record_failure_def Let_def)

lemma reset_minutes_cases:
  "reset_minutes msg ext =
     (case ext of None \<Rightarrow> hint_minutes msg
      | Some e \<Rightarrow> if e \<noteq> 0 then e div 60 else hint_minutes msg)"
  by (simp add: reset_minutes_def given_def hint_minutes_def Let_def split: option.splits)

text \<open>
  C6. When the error text of a failure of provider \<open>n\<close> matches the rate-limit
  vocabulary, the handler (lines 325--334 of \<^verbatim>\<open>_handle_provider_failure\<close>) raises
  nothing and leaves \<open>n\<close> disabled with \<open>last_failure_time = now\<close>, whatever the
  ledger held before and whatever the threshold is. It records a rate-limit entry whose
  reset lies the explicit override after \<open>now\<close> (600 s, given for gemini) or else the
  minutes hinted by the text, and whose attempt counter is one more than the counter of
  the entry recorded before, or 1 when there was none. This holds for every clock
  reading at which the reset time is a date that Python represents.
\<close>

theorem rate_limit_disables:
  assumes "is_rate_limit msg" and "n \<noteq> []"
    and "datetime_in_range (now + (if n = ''gemini'' then 600 else 60 * real_of_int (hint_minutes msg)))"
  shows "fst (classify_failure (Some n) msg now s) = None
       \<and> \<not> provider_enabled (snd (classify_failure (Some n) msg now s)) n
       \<and> last_failure_time (snd (classify_failure (Some n) msg now s)) n = Some now
       \<and> rate_limits (snd (classify_failure (Some n) msg now s)) n =
           Some \<lparr>reset_time = now + (if n = ''gemini'' then 600 else 60 * real_of_int (hint_minutes msg)),
                 attempts = (case rate_limits s n of None \<Rightarrow> 0 | Some r \<Rightarrow> attempts r) + 1\<rparr>"
proof -
  have hint: "timedelta_in_range (hint_minutes msg)"
    by (simp add: hint_minutes_def timedelta_in_range_def)
  have ten: "timedelta_in_range 10"
    by (simp add: timedelta_in_range_def)
  show ?thesis
  proof (cases "n = ''gemini''")
    case True
    with assms ten show ?thesis
      by (simp add: classify_failure_def handle_rate_limit_def apply_rate_limit_def
          reset_minutes_cases prior_attempts_def Let_def)
  next
    case False
    with assms hint show ?thesis
      by (simp add: classify_failure_def handle_rate_limit_def apply_rate_limit_def
          reset_minutes_cases prior_attempts_def Let_def)
  qed
qed

theorem rate_limit_disables_witness:
  "is_rate_limit ''Error 429: Too Many Requests, retry in 1 hour''
   \<and> provider_failures groq_limited_once ''groq'' = 1
   \<and> \<not> provider_enabled groq_limited_once ''groq''
   \<and> rate_limits groq_limited_once ''groq'' = Some \<lparr>reset_time = 3605, attempts = 1\<rparr>
   \<and> rate_limits groq_limited_twice ''groq'' = Some \<lparr>reset_time = 3609, attempts = 2\<rparr>
   \<and> last_failure_time groq_limited_twice ''groq'' = Some 9"
proof -
  let ?msg = "''Error 429: Too Many Requests, retry in 1 hour''"
  have h: "is_rate_limit ?msg" by code_simp
  have m: "hint_minutes ?msg = 60" by code_simp
  have f: "provider_failures groq_limited_once ''groq'' = 1" by code_simp
  have z: "rate_limits three_up ''groq'' = None"
    by (simp add: three_up_def init_manager_def)
  have r5: "datetime_in_range (5 + (if ''groq'' = ''gemini'' then 600 else 60 * real_of_int (hint_minutes ?msg)))"
    by (simp add: m datetime_in_range_def)
  have r9: "datetime_in_range (9 + (if ''groq'' = ''gemini'' then 600 else 60 * real_of_int (hint_minutes ?msg)))"
    by (simp add: m datetime_in_range_def)
  from rate_limit_disables [OF h _ r5, of three_up] z m
  have once: "\<not> provider_enabled groq_limited_once ''groq''"
    "rate_limits groq_limited_once ''groq'' = Some \<lparr>reset_time = 3605, attempts = 1\<rparr>"
    by (simp_all add: groq_limited_once_def)
  from rate_limit_disables [OF h _ r9, of groq_limited_once] once m
  have "rate_limits groq_limited_twice ''groq'' = Some \<lparr>reset_time = 3609, attempts = 2\<rparr>"
    "last_failure_time groq_limited_twice ''groq'' = Some 9"
    by (simp_all add: groq_limited_twice_def)
  with h f once show ?thesis by simp
qed

subsection \<open>Selection\<close>

lemma first_by_rank_None: "first_by_rank s av = None \<longleftrightarrow> av = []"
proof -
  have "sort_key (sort_rank s) av = [] \<longleftrightarrow> av = []"
    by (metis length_sort length_0_conv)
  then show ?thesis
    by (auto simp: first_by_rank_def split: list.splits)
qed

lemma first_by_rank_Some:
  assumes "first_by_rank s av = Some n"
  shows "\<exists>p. (n, p) \<in> set av \<and> (\<forall>x\<in>set av. sort_rank s (n, p) \<le> sort_rank s x)"
proof -
  from assms obtain x xs where xs: "sort_key (sort_rank s) av = x # xs" and n: "n = fst x"
    by (auto simp: first_by_rank_def split: list.splits)
  have "sorted (map (sort_rank s) (x # xs))"
    using sorted_sort_key [of "sort_rank s" av] xs by simp
  then have le: "\<forall>y\<in>set (x # xs). sort_rank s x \<le> sort_rank s y"
    by auto
  have "set (x # xs) = set av"
    using set_sort [of "sort_rank s" av] xs by simp
  with le n show ?thesis
    by (intro exI [of _ "snd x"]) auto
qed

lemma items_loop_names: "map fst (fst (items_loop step ps s)) = map fst ps"
  by (induction ps arbitrary: s) (auto simp: case_prod_unfold Let_def)

lemma items_loop_max_failures:
  assumes "\<And>n p s. max_failures (snd (step n p s)) = max_failures s"
  shows "max_failures (snd (items_loop step ps s)) = max_failures s"
proof (induction ps arbitrary: s)
  case Nil
  show ?case by simp
next
  case (Cons x ps)
  obtain n p where x: "x = (n, p)" by (cases x)
  obtain p' s' where st: "step n p s = (p', s')" by (cases "step n p s")
  from assms [of n p s] st have "max_failures s' = max_failures s" by simp
  with Cons.IH [of s'] st x show ?case
    by (simp add: case_prod_unfold Let_def)
qed

lemma max_failures_readmit [simp]: "max_failures (readmit n s) = max_failures s"
  by (simp add: readmit_def)

lemma max_failures_for_items:
  assumes "\<And>n p s. max_failures (snd (step n p s)) = max_failures s"
  shows "max_failures (for_items step s) = max_failures s"
  using items_loop_max_failures [of step "providers s" s, OF assms]
  by (simp add: for_items_def case_prod_unfold Let_def)

lemma max_failures_best_reconcile [simp]:
  "max_failures (for_items (best_reconcile_step now) s) = max_failures s"
  by (rule max_failures_for_items) (simp add: best_reconcile_step_def)

lemma max_failures_global_reset [simp]:
  "max_failures (for_items global_reset_step s) = max_failures s"
  by (rule max_failures_for_items) (simp add: global_reset_step_def)

lemma global_reset_loop:
  "fst (items_loop global_reset_step ps s) = ps
   \<and> provider_failures (snd (items_loop global_reset_step ps s)) n
       = (if was_reset ps s n then 0 else provider_failures s n)
   \<and> provider_enabled (snd (items_loop global_reset_step ps s)) n
       = (if was_reset ps s n then True else provider_enabled s n)"
proof (induction ps arbitrary: s)
  case Nil
  show ?case by (simp add: was_reset_def)
next
  case (Cons x ps)
  obtain m p where x: "x = (m, p)" by (cases x)
  define s1 where "s1 = snd (global_reset_step m p s)"
  have st: "global_reset_step m p s = (p, s1)"
    by (simp add: s1_def global_reset_step_def)
  have f1: "provider_failures s1 n = (if m = n \<and> available p \<and> provider_failures s n > 0 then 0 else provider_failures s n)"
    and e1: "provider_enabled s1 n = (if m = n \<and> available p \<and> provider_failures s n > 0 then True else provider_enabled s n)"
    by (auto simp: s1_def global_reset_step_def readmit_def)
  have w: "was_reset ((m, p) # ps) s n \<longleftrightarrow> (m = n \<and> available p \<and> provider_failures s n > 0) \<or> was_reset ps s1 n"
    using f1 by (auto simp: was_reset_def)
  from Cons.IH [of s1] have
    "fst (items_loop global_reset_step ps s1) = ps"
    "provider_failures (snd (items_loop global_reset_step ps s1)) n
       = (if was_reset ps s1 n then 0 else provider_failures s1 n)"
    "provider_enabled (snd (items_loop global_reset_step ps s1)) n
       = (if was_reset ps s1 n then True else provider_enabled s1 n)"
    by simp_all
  with st x f1 e1 w show ?case
    by (simp add: case_prod_unfold Let_def)
qed

lemma providers_global_reset [simp]:
  "providers (for_items global_reset_step s) = providers s"
  using global_reset_loop [of "providers s" s]
  by (simp add: for_items_def case_prod_unfold Let_def)

lemma failures_global_reset:
  "provider_failures (for_items global_reset_step s) n
     = (if was_reset (providers s) s n then 0 else provider_failures s n)"
  using global_reset_loop [of "providers s" s n]
  by (simp add: for_items_def case_prod_unfold Let_def)

lemma enabled_global_reset:
  "provider_enabled (for_items global_reset_step s) n
     = (if was_reset (providers s) s n then True else provider_enabled s n)"
  using global_reset_loop [of "providers s" s n]
  by (simp add: for_items_def case_prod_unfold Let_def)

lemma get_next_unfold:
  "get_next_available_provider exclude now s =
     (first_by_rank (for_items (next_reconcile_step now) s)
        (candidates exclude (for_items (next_reconcile_step now) s)),
      for_items (next_reconcile_step now) s)"
  by (simp add: get_next_available_provider_def Let_def)

lemma select_best_candidates: "select_best exclude s = first_by_rank s (candidates exclude s)"
proof -
  have "filter (passes exclude s) (providers s) = candidates exclude s"
    unfolding candidates_def by (rule filter_cong) (auto simp: passes_def)
  moreover have "(\<lambda>x. (priority (snd x), provider_failures s (fst x))) = sort_rank s"
    by (simp add: sort_rank_def fun_eq_iff)
  ultimately show ?thesis
    by (simp add: select_best_def first_by_rank_def)
qed

lemma candidates_nil: "candidates [] s = healthy s"
  by (simp add: candidates_def healthy_def)

lemma get_best_select:
  assumes "0 < max_failures s"
  shows "fst (get_best_provider now s) = select_best [] (snd (get_best_provider now s))"
proof -
  let ?s1 = "for_items (best_reconcile_step now) s"
  let ?s2 = "for_items global_reset_step ?s1"
  show ?thesis
  proof (cases "healthy ?s1 = []")
    case False
    then show ?thesis
      by (simp add: get_best_provider_def Let_def select_best_candidates candidates_nil)
  next
    case True
    have "filter (\<lambda>(n, p). available p \<and> provider_enabled ?s2 n) (providers ?s2) = healthy ?s2"
      unfolding healthy_def
    proof (rule filter_cong)
      fix x
      assume x: "x \<in> set (providers ?s2)"
      obtain n p where np: "x = (n, p)" by (cases x)
      have "provider_failures ?s2 n < max_failures ?s2" if "available p"
      proof -
        from x np that have "list_ex (\<lambda>x. fst x = n \<and> available (snd x)) (providers ?s1)"
          unfolding list_ex_iff by (intro bexI [of _ "(n, p)"]) simp_all
        then have "provider_failures ?s2 n \<le> 0"
          by (simp add: failures_global_reset was_reset_def)
        with assms show ?thesis by simp
      qed
      with np show "(case x of (n, p) \<Rightarrow> available p \<and> provider_enabled ?s2 n) =
           (case x of (n, p) \<Rightarrow> available p \<and> provider_enabled ?s2 n
              \<and> provider_failures ?s2 n < max_failures ?s2)"
        by auto
    qed simp
    with True show ?thesis
      by (simp add: get_best_provider_def Let_def select_best_candidates candidates_nil)
  qed
qed

subsection \<open>The ledger invariant\<close>

lemma counters_ok_providers [simp]: "counters_ok N (s\<lparr>providers := ps\<rparr>) = counters_ok N s"
  by (simp add: counters_ok_def)

lemma names_providers_update [simp]: "names (s\<lparr>providers := ps\<rparr>) = set (map fst ps)"
  by (simp add: names_def)

lemma counters_ok_readmit: "counters_ok N s \<Longrightarrow> counters_ok N (readmit n s)"
  by (simp add: counters_ok_def readmit_def)

lemma names_record_failure [simp]: "names (record_failure n msg now s) = names s"
  by (simp add: record_failure_def names_def Let_def dom_map_entry)

lemma names_record_success [simp]: "names (record_success n now s) = names s"
  by (simp add: record_success_def names_def dom_map_entry)

lemma names_apply_rate_limit [simp]: "names (apply_rate_limit n msg minutes now s) = names s"
  by (simp add: apply_rate_limit_def Let_def names_def record_failure_def dom_map_entry)

lemma handle_rate_limit_cases:
  "handle_rate_limit n msg ext now s = (None, apply_rate_limit n msg (reset_minutes msg ext) now s)
   \<or> (\<exists>e. handle_rate_limit n msg ext now s = (Some e, s))"
  by (simp add: handle_rate_limit_def Let_def)

lemma counters_ok_record_failure:
  "counters_ok N s \<Longrightarrow> counters_ok N (record_failure n msg now s)"
  unfolding counters_ok_def record_failure_def Let_def
  by (auto simp: add_nonneg_pos)

lemma counters_ok_record_success:
  "counters_ok N s \<Longrightarrow> counters_ok N (record_success n now s)"
  unfolding counters_ok_def record_success_def
  by auto

lemma counters_ok_apply_rate_limit:
  "counters_ok (names s) s \<Longrightarrow> counters_ok (names s) (apply_rate_limit n msg minutes now s)"
  unfolding counters_ok_def apply_rate_limit_def record_failure_def Let_def names_def
  by (auto simp: add_nonneg_pos)

lemma no_dict_time_map_entry:
  assumes "\<And>p. dict_last_failure_time (f p) = dict_last_failure_time p"
  shows "no_dict_time (AList.map_entry n f ps) = no_dict_time ps"
  by (induction ps) (auto simp: no_dict_time_def assms)

lemma providers_record_failure:
  "no_dict_time (providers (record_failure n msg now s)) = no_dict_time (providers s)"
  by (simp add: record_failure_def Let_def no_dict_time_map_entry)

lemma providers_record_success:
  "no_dict_time (providers (record_success n now s)) = no_dict_time (providers s)"
  by (simp add: record_success_def no_dict_time_map_entry)

lemma providers_apply_rate_limit:
  "no_dict_time (providers (apply_rate_limit n msg minutes now s)) = no_dict_time (providers s)"
  by (simp add: apply_rate_limit_def Let_def record_failure_def no_dict_time_map_entry)

lemma inv_record_failure: "ledger_inv s \<Longrightarrow> ledger_inv (record_failure n msg now s)"
  by (simp add: ledger_inv_def counters_ok_record_failure providers_record_failure)

lemma inv_record_success: "ledger_inv s \<Longrightarrow> ledger_inv (record_success n now s)"
  by (simp add: ledger_inv_def counters_ok_record_success providers_record_success)

lemma inv_apply_rate_limit: "ledger_inv s \<Longrightarrow> ledger_inv (apply_rate_limit n msg minutes now s)"
  by (simp add: ledger_inv_def counters_ok_apply_rate_limit providers_apply_rate_limit)

lemma inv_handle_rate_limit:
  "ledger_inv s \<Longrightarrow> ledger_inv (snd (handle_rate_limit n msg ext now s))"
  using handle_rate_limit_cases [of n msg ext now s] by (auto simp: inv_apply_rate_limit)

lemma inv_upd_provider:
  assumes "\<And>p. dict_last_failure_time (f p) = dict_last_failure_time p" and "ledger_inv s"
  shows "ledger_inv (upd_provider n f s)"
  using assms(2) by (simp add: ledger_inv_def upd_provider_def no_dict_time_map_entry assms(1) names_def)

lemma inv_init: "ledger_inv (init_manager a b c d)"
  by (simp add: ledger_inv_def counters_ok_def no_dict_time_def init_manager_def mk_provider_def)

lemma items_loop_identity:
  assumes "\<forall>x\<in>set ps. \<forall>s. step (fst x) (snd x) s = (snd x, s)"
  shows "items_loop step ps s = (ps, s)"
  using assms by (induction ps arbitrary: s) auto

lemma cooled_down_none: "dict_last_failure_time p = None \<Longrightarrow> \<not> cooled_down now p"
  by (simp add: cooled_down_def)

lemma best_reconcile_idle:
  assumes "no_dict_time (providers s)"
  shows "for_items (best_reconcile_step now) s = s"
proof -
  have "items_loop (best_reconcile_step now) (providers s) s = (providers s, s)"
    using assms
    by (intro items_loop_identity)
       (auto simp: no_dict_time_def list_all_iff best_reconcile_step_def cooled_down_none)
  then show ?thesis by (simp add: for_items_def)
qed

lemma next_reconcile_idle:
  assumes "no_dict_time (providers s)"
  shows "for_items (next_reconcile_step now) s = s"
proof -
  have "items_loop (next_reconcile_step now) (providers s) s = (providers s, s)"
    using assms
    by (intro items_loop_identity)
       (auto simp: no_dict_time_def list_all_iff next_reconcile_step_def cooled_down_none)
  then show ?thesis by (simp add: for_items_def)
qed

lemma items_loop_keeps:
  assumes "\<And>n p s. Q s \<Longrightarrow> Q (snd (step n p s))" and "Q s"
  shows "Q (snd (items_loop step ps s))"
  using assms(2)
proof (induction ps arbitrary: s)
  case Nil
  then show ?case by simp
next
  case (Cons x ps)
  obtain n p where x: "x = (n, p)" by (cases x)
  from Cons.prems have "Q (snd (step n p s))" by (rule assms(1))
  from Cons.IH [OF this] x show ?case
    by (simp add: case_prod_unfold Let_def)
qed

lemma items_loop_dict:
  assumes "\<And>n p s. dict_last_failure_time (fst (step n p s)) = dict_last_failure_time p"
  shows "no_dict_time (fst (items_loop step ps s)) = no_dict_time ps"
proof (induction ps arbitrary: s)
  case Nil
  show ?case by simp
next
  case (Cons x ps)
  obtain n p where x: "x = (n, p)" by (cases x)
  from Cons.IH [of "snd (step n p s)"] x assms [of n p s] show ?case
    by (simp add: case_prod_unfold Let_def no_dict_time_def)
qed

lemma inv_for_items:
  assumes "\<And>N n p s. counters_ok N s \<Longrightarrow> counters_ok N (snd (step n p s))"
    and "\<And>n p s. dict_last_failure_time (fst (step n p s)) = dict_last_failure_time p"
    and "ledger_inv s"
  shows "ledger_inv (for_items step s)"
proof -
  let ?l = "items_loop step (providers s) s"
  have c: "counters_ok (names s) (snd ?l)"
  proof (rule items_loop_keeps [where Q = "counters_ok (names s)"])
    show "counters_ok (names s) (snd (step n p t))" if "counters_ok (names s) t" for n p t
      using that by (rule assms(1))
    show "counters_ok (names s) s"
      using assms(3) by (simp add: ledger_inv_def)
  qed
  have d: "no_dict_time (fst ?l)"
    using assms(3) items_loop_dict [of step "providers s" s, OF assms(2)]
    by (simp add: ledger_inv_def)
  have n: "set (map fst (fst ?l)) = names s"
    by (simp add: items_loop_names names_def)
  from c d n show ?thesis
    by (simp add: ledger_inv_def for_items_def case_prod_unfold Let_def)
qed

lemma inv_global_reset: "ledger_inv s \<Longrightarrow> ledger_inv (for_items global_reset_step s)"
  by (rule inv_for_items) (auto simp: global_reset_step_def counters_ok_readmit)

lemma inv_admin_reset_all: "ledger_inv s \<Longrightarrow> ledger_inv (for_items (admin_reset_step L) s)"
  by (rule inv_for_items) (auto simp: admin_reset_step_def Let_def counters_ok_readmit)

lemma providers_readmit [simp]: "providers (readmit n s) = providers s"
  by (simp add: readmit_def)

lemma inv_readmit: "ledger_inv s \<Longrightarrow> ledger_inv (readmit n s)"
  by (simp add: ledger_inv_def counters_ok_readmit names_def)

lemma inv_reset_one:
  assumes "ledger_inv s"
  shows "ledger_inv (readmit n (upd_provider n (\<lambda>p. fst (admin_reset_step L n p s)) s))"
proof -
  have "ledger_inv (upd_provider n (\<lambda>p. fst (admin_reset_step L n p s)) s)"
    using assms by (intro inv_upd_provider) (simp_all add: admin_reset_step_def Let_def)
  then show ?thesis by (rule inv_readmit)
qed

lemma inv_reset_provider_errors:
  "ledger_inv s \<Longrightarrow> ledger_inv (reset_provider_errors L provider_name s)"
  by (simp add: reset_provider_errors_def inv_admin_reset_all inv_reset_one split: option.splits)

lemma inv_get_best: "ledger_inv s \<Longrightarrow> ledger_inv (snd (get_best_provider now s))"
  by (simp add: get_best_provider_def Let_def best_reconcile_idle inv_global_reset ledger_inv_def [of s])

lemma inv_get_next: "ledger_inv s \<Longrightarrow> ledger_inv (snd (get_next_available_provider exclude now s))"
  by (simp add: get_next_available_provider_def Let_def next_reconcile_idle ledger_inv_def [of s])

lemma inv_own_except: "ledger_inv s \<Longrightarrow> ledger_inv (snd (own_except n key ext msg now s))"
  using inv_handle_rate_limit [of s key msg ext now]
  by (auto simp: own_except_def inv_record_failure split: prod.splits option.splits)

lemma inv_after_post: "ledger_inv s \<Longrightarrow> ledger_inv (after_post r now s)"
proof (cases r)
  case (HfOk t)
  then show "ledger_inv s \<Longrightarrow> ?thesis" by (simp add: after_post_def)
next
  case (HfStatus code body)
  assume inv: "ledger_inv s"
  from inv_handle_rate_limit [OF inv, of "''huggingface''" "''Erro '' @ str_int code @ '': '' @ body" None now]
  show ?thesis
    using HfStatus inv
    by (auto simp: after_post_def Let_def inv_record_failure split: prod.splits option.splits)
next
  case (HfRaises m)
  then show "ledger_inv s \<Longrightarrow> ?thesis" by (simp add: after_post_def inv_record_failure)
qed

lemma inv_hf_loop:
  "ledger_inv s \<Longrightarrow> ledger_inv (snd (snd (hf_loop B prompt max_tokens now k s)))"
proof (induction k arbitrary: s)
  case 0
  then show ?case by simp
next
  case (Suc k)
  show ?case
  proof (cases "map_of (providers s) ''huggingface''")
    case None
    with Suc.prems show ?thesis by simp
  next
    case (Some config)
    define s1 where "s1 = upd_provider ''huggingface''
        (\<lambda>p. p\<lparr>current_model_index := (current_model_index config + 1) mod length (models config)\<rparr>) s"
    define r where
      "r = hf_post B (models config ! current_model_index config) prompt (min max_tokens 1024)"
    have i1: "ledger_inv s1"
      unfolding s1_def using Suc.prems by (intro inv_upd_provider) simp_all
    then have "ledger_inv (after_post r now s1)" by (rule inv_after_post)
    from Suc.IH [OF this]
    have "ledger_inv (snd (snd (hf_loop B prompt max_tokens now k (after_post r now s1))))" .
    with Some i1 Suc.prems show ?thesis
      by (simp add: Let_def s1_def r_def case_prod_unfold)
  qed
qed

lemma inv_generate_with_gemini:
  "ledger_inv s \<Longrightarrow> ledger_inv (snd (snd (generate_with_gemini B prompt max_tokens now s)))"
  using inv_own_except [of s]
  by (auto simp: generate_with_gemini_def Let_def split: option.splits sum.splits prod.splits)
     (metis snd_conv)+

lemma inv_generate_with_groq:
  "ledger_inv s \<Longrightarrow> ledger_inv (snd (snd (generate_with_groq B prompt max_tokens now s)))"
  using inv_own_except [of s]
  by (auto simp: generate_with_groq_def Let_def split: option.splits sum.splits prod.splits)
     (metis snd_conv)+

lemma inv_generate_with_openai:
  "ledger_inv s \<Longrightarrow> ledger_inv (snd (snd (generate_with_openai B prompt max_tokens now s)))"
  using inv_own_except [of s]
  by (auto simp: generate_with_openai_def Let_def split: option.splits sum.splits prod.splits)
     (metis snd_conv)+

lemma inv_generate_with_huggingface:
  "ledger_inv s \<Longrightarrow> ledger_inv (snd (snd (generate_with_huggingface B prompt max_tokens now s)))"
  by (simp add: generate_with_huggingface_def inv_hf_loop split: option.splits)

lemma state_with_text [simp]: "snd (snd (with_text c)) = snd (snd c)"
  by (cases c) (simp add: with_text_def)

lemma inv_call_provider:
  "ledger_inv s \<Longrightarrow> ledger_inv (snd (snd (call_provider B n prompt max_tokens now s)))"
  by (simp add: call_provider_def inv_generate_with_gemini inv_generate_with_groq
      inv_generate_with_openai inv_generate_with_huggingface)

lemma inv_classify_failure:
  "ledger_inv s \<Longrightarrow> ledger_inv (snd (classify_failure provider_name error_str now s))"
  by (simp add: classify_failure_def inv_handle_rate_limit inv_record_failure split: option.splits)

lemma inv_handle_provider_failure:
  assumes "ledger_inv s"
  shows "ledger_inv (snd (handle_provider_failure provider_name error_str now s))"
proof -
  obtain e s1 where c: "classify_failure provider_name error_str now s = (e, s1)"
    by (cases "classify_failure provider_name error_str now s")
  with inv_classify_failure [OF assms, of provider_name error_str now] have i1: "ledger_inv s1"
    by simp
  from c i1 inv_get_next [OF i1] show ?thesis
    by (simp add: handle_provider_failure_def case_prod_unfold split: option.splits)
qed

lemma inv_give_up: "ledger_inv s \<Longrightarrow> ledger_inv (snd (snd (give_up n e calls now s)))"
  using inv_handle_provider_failure [of s "Some n" e now]
  by (auto simp: give_up_def split: prod.splits sum.splits)

lemma inv_give_up_in_try:
  assumes "ledger_inv s"
  shows "ledger_inv (snd (snd (give_up_in_try n calls now s)))"
proof -
  obtain r s1 where h: "handle_provider_failure (Some n) first_attempt_failed now s = (r, s1)"
    by (cases "handle_provider_failure (Some n) first_attempt_failed now s")
  with inv_handle_provider_failure [OF assms, of "Some n" first_attempt_failed now]
  have "ledger_inv s1" by simp
  with h show ?thesis
    by (simp add: give_up_in_try_def inv_give_up split: sum.splits)
qed

lemma inv_try_providers:
  assumes "ledger_inv s"
  shows "ledger_inv (snd (snd (try_providers B method prompt kw now s)))"
proof -
  obtain sel s1 where b: "get_best_provider now s = (sel, s1)"
    by (cases "get_best_provider now s")
  with inv_get_best [OF assms, of now] have i1: "ledger_inv s1" by simp
  show ?thesis
  proof (cases sel)
    case None
    with b i1 show ?thesis by (simp add: try_providers_def)
  next
    case (Some n)
    let ?c = "call_provider B n prompt (case kw_max_tokens kw of None \<Rightarrow> 1000 | Some m \<Rightarrow> m) now s1"
    obtain r calls s2 where c: "?c = (r, calls, s2)" by (cases ?c) auto
    with inv_call_provider [OF i1, of B n prompt _ now] have i2: "ledger_inv s2"
      by (metis snd_conv)
    from i2 have i3: "ledger_inv (record_failure n ''Resposta vazia do provedor.'' now s2)"
      by (rule inv_record_failure)
    from b Some c i1 i2 i3 show ?thesis
      by (simp add: try_providers_def inv_give_up inv_give_up_in_try inv_record_success
          split: sum.splits option.splits)
  qed
qed

lemma inv_generate_analysis:
  "ledger_inv s \<Longrightarrow>
   ledger_inv (snd (snd (generate_analysis B prompt max_tokens temperature now s)))"
  by (simp add: generate_analysis_def inv_try_providers)

lemma reachable_inv: "reachable s \<Longrightarrow> ledger_inv s"
proof (induction rule: reachable.induct)
  case (start gemini_up groq_up openai_up hf_up)
  show ?case by (rule inv_init)
next
  case (success s n now)
  then show ?case by (simp add: inv_record_success)
next
  case (failure s n error_msg now)
  then show ?case by (simp add: inv_record_failure)
next
  case (rate_limited s n error_msg extended_timeout now)
  then show ?case by (simp add: inv_handle_rate_limit)
next
  case (best s now)
  then show ?case by (simp add: inv_get_best)
next
  case (next_available s exclude now)
  then show ?case by (simp add: inv_get_next)
next
  case (admin_reset s L provider_name)
  then show ?case by (simp add: inv_reset_provider_errors)
next
  case (generate s B prompt max_tokens temperature now)
  then show ?case by (simp add: inv_generate_analysis)
qed

subsection \<open>The threshold\<close>

lemma reachable_record_failures: "reachable s \<Longrightarrow> reachable (record_failures n evs s)"
  unfolding record_failures_def
  by (induction evs arbitrary: s) (simp_all add: reachable.failure)

lemma max_failures_record_failure [simp]:
  "max_failures (record_failure n msg now s) = max_failures s"
  by (simp add: record_failure_def Let_def)

lemma failures_record_failure:
  "n \<in> names s \<Longrightarrow> provider_failures (record_failure n msg now s) n = provider_failures s n + 1"
  by (simp add: record_failure_def Let_def)

lemma count_record_failures:
  "n \<in> names s \<Longrightarrow>
   provider_failures (record_failures n evs s) n = provider_failures s n + int (length evs)
   \<and> max_failures (record_failures n evs s) = max_failures s"
  unfolding record_failures_def
  by (induction evs arbitrary: s) (simp_all add: failures_record_failure)

lemma enabled_record_failure:
  "\<not> provider_enabled s m \<Longrightarrow> \<not> provider_enabled (record_failure n msg now s) m"
  by (simp add: record_failure_def Let_def)

lemma enabled_handle_rate_limit:
  "\<not> provider_enabled s m \<Longrightarrow> \<not> provider_enabled (snd (handle_rate_limit n msg ext now s)) m"
  by (simp add: handle_rate_limit_def apply_rate_limit_def record_failure_def Let_def)

lemma enabled_record_success_other:
  "k \<noteq> m \<Longrightarrow> provider_enabled (record_success k now s) m = provider_enabled s m"
  by (simp add: record_success_def)

lemma enabled_reset_other:
  "k \<noteq> m \<Longrightarrow> k \<noteq> [] \<Longrightarrow>
   provider_enabled (reset_provider_errors L (Some k) s) m = provider_enabled s m"
  by (simp add: reset_provider_errors_def readmit_def upd_provider_def)

lemma healthy_passes: "healthy s = filter (passes [] s) (providers s)"
  unfolding healthy_def by (rule filter_cong) (auto simp: passes_def)

lemma healthy_nil: "healthy s = [] \<longleftrightarrow> \<not> list_ex (passes [] s) (providers s)"
  by (simp add: healthy_passes filter_empty_conv list_ex_iff)

lemma get_next_reachable:
  "reachable s \<Longrightarrow> snd (get_next_available_provider exclude now s) = s"
  using reachable_inv [of s]
  by (simp add: get_next_available_provider_def Let_def next_reconcile_idle ledger_inv_def)

lemma get_best_reachable_some:
  "reachable s \<Longrightarrow> list_ex (passes [] s) (providers s) \<Longrightarrow> snd (get_best_provider now s) = s"
  using reachable_inv [of s]
  by (simp add: get_best_provider_def Let_def best_reconcile_idle ledger_inv_def healthy_nil)

lemma get_best_reachable_none:
  "reachable s \<Longrightarrow> \<not> list_ex (passes [] s) (providers s) \<Longrightarrow>
   snd (get_best_provider now s) = for_items global_reset_step s"
  using reachable_inv [of s]
  by (simp add: get_best_provider_def Let_def best_reconcile_idle ledger_inv_def healthy_nil)

text \<open>
  C5, as amended. In every reachable state, that is after any sequence of failure
  recordings, rate-limit handlings, success recordings, selections with their cooldown
  reconciliation and global reset, administrative resets and whole requests, a provider
  whose consecutive failures have reached the threshold is disabled. A registered
  provider is disabled after at least threshold many failure recordings in a row. A
  disabled provider \<open>m\<close> stays disabled under every further failure or rate-limit
  recording, under a success recording or an administrative reset of another provider,
  under a fallback selection made within its cooldown, and under a primary selection
  made within its cooldown while some provider passes the filter. When no provider
  passes the filter, the primary selection enables \<open>m\<close> at once through its global reset
  exactly when \<open>m\<close> is available.
\<close>

theorem threshold_disables:
  assumes "reachable s"
  shows "(\<forall>n. max_failures s \<le> provider_failures s n \<longrightarrow> \<not> provider_enabled s n)
       \<and> (n \<in> names s \<and> max_failures s \<le> int (length evs)
            \<longrightarrow> \<not> provider_enabled (record_failures n evs s) n)
       \<and> (\<not> provider_enabled s m \<longrightarrow>
            \<not> provider_enabled (record_failure n msg now s) m
          \<and> \<not> provider_enabled (snd (handle_rate_limit n msg ext now s)) m
          \<and> (k \<noteq> m \<longrightarrow> \<not> provider_enabled (record_success k now s) m)
          \<and> (k \<noteq> m \<and> k \<noteq> [] \<longrightarrow> \<not> provider_enabled (reset_provider_errors L (Some k) s) m)
          \<and> (within_cooldown now s m \<longrightarrow>
                \<not> provider_enabled (snd (get_next_available_provider exclude now s)) m)
          \<and> (within_cooldown now s m \<and> list_ex (passes [] s) (providers s) \<longrightarrow>
                \<not> provider_enabled (snd (get_best_provider now s)) m)
          \<and> (\<not> list_ex (passes [] s) (providers s) \<longrightarrow>
                provider_enabled (snd (get_best_provider now s)) m
                = list_ex (\<lambda>x. fst x = m \<and> available (snd x)) (providers s)))"
proof -
  from assms have inv: "ledger_inv s" by (rule reachable_inv)
  then have a: "\<forall>n. max_failures s \<le> provider_failures s n \<longrightarrow> \<not> provider_enabled s n"
    and nonneg: "0 \<le> provider_failures s n"
    and dis: "\<And>n. n \<in> names s \<Longrightarrow> \<not> provider_enabled s n \<Longrightarrow> 0 < provider_failures s n"
    by (simp_all add: ledger_inv_def counters_ok_def)
  have b: "\<not> provider_enabled (record_failures n evs s) n"
    if n: "n \<in> names s" and len: "max_failures s \<le> int (length evs)"
  proof -
    let ?s' = "record_failures n evs s"
    from assms have "ledger_inv ?s'"
      by (intro reachable_inv reachable_record_failures)
    then have "max_failures ?s' \<le> provider_failures ?s' n \<longrightarrow> \<not> provider_enabled ?s' n"
      by (simp add: ledger_inv_def counters_ok_def)
    moreover from count_record_failures [OF n, of evs] nonneg len
    have "max_failures ?s' \<le> provider_failures ?s' n" by simp
    ultimately show ?thesis by simp
  qed
  have reset: "provider_enabled (snd (get_best_provider now s)) m
                = list_ex (\<lambda>x. fst x = m \<and> available (snd x)) (providers s)"
    if off: "\<not> provider_enabled s m" and none: "\<not> list_ex (passes [] s) (providers s)"
  proof (cases "list_ex (\<lambda>x. fst x = m \<and> available (snd x)) (providers s)")
    case True
    then have "m \<in> names s"
      by (auto simp: list_ex_iff names_def)
    from dis [OF this off] True show ?thesis
      by (simp add: get_best_reachable_none [OF assms none] enabled_global_reset was_reset_def)
  next
    case False
    with off show ?thesis
      by (simp add: get_best_reachable_none [OF assms none] enabled_global_reset was_reset_def)
  qed
  from a b reset show ?thesis
    by (simp add: enabled_record_failure enabled_handle_rate_limit enabled_record_success_other
        enabled_reset_other get_next_reachable [OF assms] get_best_reachable_some [OF assms])
qed

lemma reachable_three_up: "reachable three_up"
  unfolding three_up_def by (rule reachable.start)

lemma reachable_two_failures: "reachable two_failures"
  unfolding two_failures_def by (intro reachable.failure reachable_three_up)

lemma reachable_gemini_failed_thrice: "reachable gemini_failed_thrice"
  unfolding gemini_failed_thrice_def gemini_only_def
  by (intro reachable_record_failures reachable.start)

theorem threshold_disables_witness:
  "provider_enabled two_failures ''gemini''
   \<and> provider_failures (record_failures ''gemini'' [(''boom'', 3)] two_failures) ''gemini'' = 3
   \<and> \<not> provider_enabled gemini_failed_thrice ''gemini''
   \<and> \<not> provider_enabled (record_failure ''gemini'' ''boom'' 9 gemini_failed_thrice) ''gemini''
   \<and> within_cooldown 9 gemini_failed_thrice ''gemini''
   \<and> \<not> provider_enabled (snd (get_next_available_provider [] 9 gemini_failed_thrice)) ''gemini''
   \<and> provider_enabled (snd (get_best_provider 9 gemini_failed_thrice)) ''gemini''"
proof -
  let ?evs = "[(''boom'', 3), (''boom'', 4), (''boom'', 5)] :: (string \<times> timestamp) list"
  have e: "provider_enabled two_failures ''gemini''" by code_simp
  have f: "provider_failures (record_failures ''gemini'' [(''boom'', 3)] two_failures) ''gemini'' = 3"
    by code_simp
  have n: "''gemini'' \<in> names gemini_only"
    by (simp add: gemini_only_def names_init)
  have m: "max_failures gemini_only \<le> int (length ?evs)"
    by (simp add: gemini_only_def init_manager_def)
  have r0: "reachable gemini_only"
    unfolding gemini_only_def by (rule reachable.start)
  from threshold_disables [OF r0, where n = "''gemini''" and evs = ?evs] n m
  have d: "\<not> provider_enabled gemini_failed_thrice ''gemini''"
    unfolding gemini_failed_thrice_def by blast
  have w: "within_cooldown 9 gemini_failed_thrice ''gemini''" by code_simp
  have none: "\<not> list_ex (passes [] gemini_failed_thrice) (providers gemini_failed_thrice)"
    by code_simp
  have av: "list_ex (\<lambda>x. fst x = ''gemini'' \<and> available (snd x)) (providers gemini_failed_thrice)"
    by code_simp
  note t = threshold_disables [OF reachable_gemini_failed_thrice, where m = "''gemini''"
      and n = "''gemini''" and msg = "''boom''" and now = 9 and exclude = "[]"]
  from t d w none av
  have "\<not> provider_enabled (record_failure ''gemini'' ''boom'' 9 gemini_failed_thrice) ''gemini''"
    "\<not> provider_enabled (snd (get_next_available_provider [] 9 gemini_failed_thrice)) ''gemini''"
    "provider_enabled (snd (get_best_provider 9 gemini_failed_thrice)) ''gemini''"
    by blast+
  with e f d w show ?thesis by simp
qed

subsection \<open>The global reset\<close>

text \<open>
  C7. In a reachable state, when no provider is healthy after the cooldown
  reconciliation of \<^verbatim>\<open>get_best_provider\<close>, every available provider ends with zero
  consecutive failures and enabled, and no \<open>error_count\<close> changes. Hence
  \<^verbatim>\<open>get_best_provider\<close> returns a provider whenever some provider is available.
\<close>

theorem global_reset_recovers:
  assumes "reachable s"
  shows "(healthy (for_items (best_reconcile_step now) s) = [] \<longrightarrow>
            list_all (\<lambda>x. available (snd x) \<longrightarrow>
                        provider_failures (snd (get_best_provider now s)) (fst x) = 0
                      \<and> provider_enabled (snd (get_best_provider now s)) (fst x))
              (providers (snd (get_best_provider now s)))
          \<and> map (\<lambda>x. (fst x, error_count (snd x))) (providers (snd (get_best_provider now s)))
              = map (\<lambda>x. (fst x, error_count (snd x))) (providers s))
       \<and> (list_ex (\<lambda>x. available (snd x)) (providers s) \<longrightarrow> fst (get_best_provider now s) \<noteq> None)"
proof -
  from assms have inv: "ledger_inv s" by (rule reachable_inv)
  then have idle: "for_items (best_reconcile_step now) s = s"
    by (simp add: best_reconcile_idle ledger_inv_def)
  from inv have nonneg: "\<And>n. 0 \<le> provider_failures s n"
    and dis: "\<And>n. n \<in> names s \<Longrightarrow> \<not> provider_enabled s n \<Longrightarrow> 0 < provider_failures s n"
    by (simp_all add: ledger_inv_def counters_ok_def)
  let ?s2 = "for_items global_reset_step s"
  have fresh: "provider_failures ?s2 n = 0 \<and> provider_enabled ?s2 n"
    if "(n, p) \<in> set (providers s)" and "available p" for n p
  proof -
    from that have ex: "list_ex (\<lambda>x. fst x = n \<and> available (snd x)) (providers s)"
      unfolding list_ex_iff by (intro bexI [of _ "(n, p)"]) simp_all
    from that have n: "n \<in> names s"
      by (force simp: names_def)
    show ?thesis
    proof (cases "0 < provider_failures s n")
      case True
      with ex show ?thesis
        by (simp add: failures_global_reset enabled_global_reset was_reset_def)
    next
      case False
      with nonneg [of n] have z: "provider_failures s n = 0" by simp
      with dis [OF n] have "provider_enabled s n" by auto
      with z ex show ?thesis
        by (simp add: failures_global_reset enabled_global_reset was_reset_def)
    qed
  qed
  have reset: "list_all (\<lambda>x. available (snd x) \<longrightarrow>
                        provider_failures (snd (get_best_provider now s)) (fst x) = 0
                      \<and> provider_enabled (snd (get_best_provider now s)) (fst x))
              (providers (snd (get_best_provider now s)))
          \<and> map (\<lambda>x. (fst x, error_count (snd x))) (providers (snd (get_best_provider now s)))
              = map (\<lambda>x. (fst x, error_count (snd x))) (providers s)"
    if "healthy (for_items (best_reconcile_step now) s) = []"
  proof -
    from that idle have s': "snd (get_best_provider now s) = ?s2"
      by (simp add: get_best_provider_def Let_def)
    show ?thesis
      unfolding s' list_all_iff using fresh by auto
  qed
  have some: "fst (get_best_provider now s) \<noteq> None"
    if "list_ex (\<lambda>x. available (snd x)) (providers s)"
  proof (cases "healthy s = []")
    case False
    with idle show ?thesis
      by (simp add: get_best_provider_def Let_def first_by_rank_None)
  next
    case True
    from that obtain n p where np: "(n, p) \<in> set (providers s)" "available p"
      by (auto simp: list_ex_iff)
    with fresh [OF np] have "(n, p) \<in> set (filter (\<lambda>(n, p). available p \<and> provider_enabled ?s2 n) (providers ?s2))"
      by simp
    then have "filter (\<lambda>(n, p). available p \<and> provider_enabled ?s2 n) (providers ?s2) \<noteq> []"
      by (metis empty_iff list.set(1))
    with True idle show ?thesis
      by (simp add: get_best_provider_def Let_def first_by_rank_None)
  qed
  from reset some show ?thesis by blast
qed

lemma reachable_all_limited: "reachable all_limited"
  unfolding all_limited_def by (intro reachable.rate_limited reachable_three_up)

theorem global_reset_recovers_witness:
  "healthy (for_items (best_reconcile_step 1) all_limited) = []
   \<and> list_ex (\<lambda>x. available (snd x)) (providers all_limited)
   \<and> \<not> provider_enabled all_limited ''gemini''
   \<and> fst (get_best_provider 1 all_limited) = Some ''gemini''
   \<and> provider_enabled (snd (get_best_provider 1 all_limited)) ''gemini''"
proof -
  have h: "healthy (for_items (best_reconcile_step 1) all_limited) = []" by code_simp
  have a: "list_ex (\<lambda>x. available (snd x)) (providers all_limited)" by code_simp
  have d: "\<not> provider_enabled all_limited ''gemini''" by code_simp
  have g: "fst (get_best_provider 1 all_limited) = Some ''gemini''" by code_simp
  have e: "provider_enabled (snd (get_best_provider 1 all_limited)) ''gemini''" by code_simp
  from global_reset_recovers [OF reachable_all_limited, of 1] a
  have "fst (get_best_provider 1 all_limited) \<noteq> None" by blast
  with h a d g e show ?thesis by simp
qed

subsection \<open>Selection on the ledger given\<close>

lemma global_reset_fields:
  "last_error (snd (items_loop global_reset_step ps s)) n
       = (if was_reset ps s n then None else last_error s n)
   \<and> last_failure_time (snd (items_loop global_reset_step ps s)) n
       = (if was_reset ps s n then None else last_failure_time s n)
   \<and> max_failures (snd (items_loop global_reset_step ps s)) = max_failures s
   \<and> rate_limits (snd (items_loop global_reset_step ps s)) = rate_limits s
   \<and> providers (snd (items_loop global_reset_step ps s)) = providers s"
proof (induction ps arbitrary: s)
  case Nil
  show ?case by (simp add: was_reset_def)
next
  case (Cons x ps)
  obtain m p where x: "x = (m, p)" by (cases x)
  define s1 where "s1 = snd (global_reset_step m p s)"
  have st: "global_reset_step m p s = (p, s1)"
    by (simp add: s1_def global_reset_step_def)
  have f1: "provider_failures s1 n
      = (if m = n \<and> available p \<and> provider_failures s n > 0 then 0 else provider_failures s n)"
    and e1: "last_error s1 n
      = (if m = n \<and> available p \<and> provider_failures s n > 0 then None else last_error s n)"
    and t1: "last_failure_time s1 n
      = (if m = n \<and> available p \<and> provider_failures s n > 0 then None else last_failure_time s n)"
    and o1: "max_failures s1 = max_failures s" "rate_limits s1 = rate_limits s"
      "providers s1 = providers s"
    by (auto simp: s1_def global_reset_step_def readmit_def)
  have w: "was_reset ((m, p) # ps) s n
      \<longleftrightarrow> (m = n \<and> available p \<and> provider_failures s n > 0) \<or> was_reset ps s1 n"
    using f1 by (auto simp: was_reset_def)
  from Cons.IH [of s1] have
    "last_error (snd (items_loop global_reset_step ps s1)) n
       = (if was_reset ps s1 n then None else last_error s1 n)"
    "last_failure_time (snd (items_loop global_reset_step ps s1)) n
       = (if was_reset ps s1 n then None else last_failure_time s1 n)"
    "max_failures (snd (items_loop global_reset_step ps s1)) = max_failures s1"
    "rate_limits (snd (items_loop global_reset_step ps s1)) = rate_limits s1"
    "providers (snd (items_loop global_reset_step ps s1)) = providers s1"
    by simp_all
  with st x e1 t1 o1 w show ?case
    by (simp add: case_prod_unfold Let_def)
qed

lemma global_reset_is_forced_reset: "for_items global_reset_step s = forced_reset s"
proof (rule manager.equality)
  let ?l = "items_loop global_reset_step (providers s) s"
  have fi: "for_items global_reset_step s = (snd ?l)\<lparr>providers := fst ?l\<rparr>"
    by (simp add: for_items_def case_prod_unfold Let_def)
  show "providers (for_items global_reset_step s) = providers (forced_reset s)"
    by (simp add: forced_reset_def)
  show "provider_failures (for_items global_reset_step s) = provider_failures (forced_reset s)"
    by (rule ext) (simp add: failures_global_reset was_reset_def forced_reset_def)
  show "provider_enabled (for_items global_reset_step s) = provider_enabled (forced_reset s)"
    by (rule ext) (simp add: enabled_global_reset was_reset_def forced_reset_def)
  show "last_error (for_items global_reset_step s) = last_error (forced_reset s)"
    using global_reset_fields [of "providers s" s]
    by (intro ext) (simp add: fi was_reset_def forced_reset_def)
  show "last_failure_time (for_items global_reset_step s) = last_failure_time (forced_reset s)"
    using global_reset_fields [of "providers s" s]
    by (intro ext) (simp add: fi was_reset_def forced_reset_def)
  show "max_failures (for_items global_reset_step s) = max_failures (forced_reset s)"
    by (simp add: forced_reset_def)
  show "rate_limits (for_items global_reset_step s) = rate_limits (forced_reset s)"
    using global_reset_fields [of "providers s" s]
    by (simp add: fi forced_reset_def)
  show "manager.more (for_items global_reset_step s) = manager.more (forced_reset s)"
    by simp
qed

text \<open>
  C4, as amended. In every reachable state and for every exclusion list,
  \<^verbatim>\<open>_get_next_available_provider\<close> leaves the ledger as it was given and returns what
  \<open>select_best\<close> returns on it. \<^verbatim>\<open>get_best_provider\<close> does the same, with nothing
  excluded, when some provider passes the filter; when none passes, it leaves the ledger
  that the forced reset makes of the one given and returns what \<open>select_best\<close> returns on
  that. \<open>select_best\<close> returns none exactly when no provider passes the filter; a
  provider it returns is available, enabled, below the threshold and not excluded, and
  has the least (priority, consecutive failures) of all that pass.
\<close>

theorem selection_sound:
  assumes "reachable s"
  shows "get_next_available_provider exclude now s = (select_best exclude s, s)
       \<and> (list_ex (passes [] s) (providers s) \<longrightarrow>
            get_best_provider now s = (select_best [] s, s))
       \<and> (\<not> list_ex (passes [] s) (providers s) \<longrightarrow>
            get_best_provider now s = (select_best [] (forced_reset s), forced_reset s))
       \<and> (select_best exclude t = None \<longleftrightarrow> \<not> list_ex (passes exclude t) (providers t))
       \<and> (\<forall>n. select_best exclude t = Some n \<longrightarrow>
            (\<exists>p. (n, p) \<in> set (providers t) \<and> passes exclude t (n, p)
               \<and> provider_enabled t n \<and> provider_failures t n < max_failures t
               \<and> (\<forall>x\<in>set (providers t). passes exclude t x \<longrightarrow>
                     (priority p, provider_failures t n)
                     \<le> (priority (snd x), provider_failures t (fst x)))))"
proof -
  from assms have inv: "ledger_inv s" by (rule reachable_inv)
  then have pos: "0 < max_failures s"
    by (simp add: ledger_inv_def counters_ok_def)
  have next_sel: "get_next_available_provider exclude now s = (select_best exclude s, s)"
    using get_next_reachable [OF assms, of exclude now]
    by (simp add: get_next_unfold select_best_candidates)
  have best: "get_best_provider now s
      = (select_best [] (snd (get_best_provider now s)), snd (get_best_provider now s))"
    using get_best_select [OF pos, of now] by (simp add: prod_eq_iff)
  have best_some: "get_best_provider now s = (select_best [] s, s)"
    if "list_ex (passes [] s) (providers s)"
    using best get_best_reachable_some [OF assms that, of now] by simp
  have best_none: "get_best_provider now s = (select_best [] (forced_reset s), forced_reset s)"
    if "\<not> list_ex (passes [] s) (providers s)"
    using best get_best_reachable_none [OF assms that, of now]
    by (simp add: global_reset_is_forced_reset)
  have cand: "set (candidates exclude t) = {x \<in> set (providers t). passes exclude t x}"
    by (auto simp: candidates_def passes_def)
  have none: "select_best exclude t = None \<longleftrightarrow> \<not> list_ex (passes exclude t) (providers t)"
  proof -
    have "candidates exclude t = [] \<longleftrightarrow> set (candidates exclude t) = {}" by simp
    also have "\<dots> \<longleftrightarrow> \<not> list_ex (passes exclude t) (providers t)"
      unfolding cand list_ex_iff by auto
    finally show ?thesis
      by (simp add: select_best_candidates first_by_rank_None)
  qed
  have some: "\<exists>p. (n, p) \<in> set (providers t) \<and> passes exclude t (n, p)
               \<and> provider_enabled t n \<and> provider_failures t n < max_failures t
               \<and> (\<forall>x\<in>set (providers t). passes exclude t x \<longrightarrow>
                     (priority p, provider_failures t n)
                     \<le> (priority (snd x), provider_failures t (fst x)))"
    if "select_best exclude t = Some n" for n
  proof -
    from that have "first_by_rank t (candidates exclude t) = Some n"
      by (simp add: select_best_candidates)
    from first_by_rank_Some [OF this] obtain p where
      p: "(n, p) \<in> set (candidates exclude t)"
      and le: "\<forall>x\<in>set (candidates exclude t). sort_rank t (n, p) \<le> sort_rank t x"
      by blast
    from p le show ?thesis
      unfolding cand by (intro exI [of _ p]) (auto simp: passes_def sort_rank_def)
  qed
  from next_sel best_some best_none none some show ?thesis by blast
qed

theorem selection_sound_witness:
  "get_next_available_provider [''gemini''] 3 two_failures = (Some ''groq'', two_failures)
   \<and> get_best_provider 3 two_failures = (Some ''gemini'', two_failures)
   \<and> get_best_provider 1 all_limited = (Some ''gemini'', forced_reset all_limited)
   \<and> provider_failures (forced_reset all_limited) ''groq'' = 0
   \<and> select_best [''gemini'', ''groq'', ''openai''] two_failures = None"
proof -
  have a: "select_best [''gemini''] two_failures = Some ''groq''" by code_simp
  have b: "select_best [] two_failures = Some ''gemini''" by code_simp
  have c: "list_ex (passes [] two_failures) (providers two_failures)" by code_simp
  have d: "\<not> list_ex (passes [''gemini'', ''groq'', ''openai''] two_failures) (providers two_failures)"
    by code_simp
  have e: "\<not> list_ex (passes [] all_limited) (providers all_limited)" by code_simp
  have f: "select_best [] (forced_reset all_limited) = Some ''gemini''" by code_simp
  have g: "provider_failures (forced_reset all_limited) ''groq'' = 0" by code_simp
  note two = selection_sound [OF reachable_two_failures, where now = 3
      and t = two_failures and exclude = "[''gemini'', ''groq'', ''openai'']"]
  note next_two = selection_sound [OF reachable_two_failures, where now = 3
      and exclude = "[''gemini'']"]
  note lim = selection_sound [OF reachable_all_limited, where now = 1]
  from two c d have "get_best_provider 3 two_failures = (select_best [] two_failures, two_failures)"
    "select_best [''gemini'', ''groq'', ''openai''] two_failures = None"
    by blast+
  moreover from next_two
  have "get_next_available_provider [''gemini''] 3 two_failures
      = (select_best [''gemini''] two_failures, two_failures)"
    by blast
  moreover from lim e
  have "get_best_provider 1 all_limited
      = (select_best [] (forced_reset all_limited), forced_reset all_limited)"
    by blast
  ultimately show ?thesis using a b f g by simp
qed

text \<open>
  The claim C4 as it was worded fails on the ledger given: in \<open>all_limited\<close> no provider
  passes the filter and gemini is disabled, yet \<^verbatim>\<open>get_best_provider\<close> returns gemini.
\<close>

theorem selection_counterexample:
  "select_best [] all_limited = None
   \<and> healthy all_limited = []
   \<and> provider_enabled all_limited ''gemini'' = False
   \<and> fst (get_best_provider 1 all_limited) = Some ''gemini''"
  by code_simp

text \<open>
  The claim C5 as it was worded fails: gemini, the only available provider, is disabled
  by three failures in a row, the last at time 5. At time 6, well within the cooldown and
  with no administrative reset, \<^verbatim>\<open>get_best_provider\<close> enables it again through its
  global reset and returns it.
\<close>

theorem threshold_counterexample:
  "provider_failures gemini_failed_thrice ''gemini'' = 3
   \<and> provider_enabled gemini_failed_thrice ''gemini'' = False
   \<and> last_failure_time gemini_failed_thrice ''gemini'' = Some 5
   \<and> fst (get_best_provider 6 gemini_failed_thrice) = Some ''gemini''
   \<and> provider_enabled (snd (get_best_provider 6 gemini_failed_thrice)) ''gemini''
   \<and> provider_failures (snd (get_best_provider 6 gemini_failed_thrice)) ''gemini'' = 0"
  by code_simp

subsection \<open>Where the code departs from the specification\<close>

text \<open>
  C1 (the code departs from it). With gemini, groq and openai constructed and gemini
  raising a generic error, \<open>generate_analysis\<close> calls gemini once and returns the name
  that the fallback selection picked, \<open>groq\<close>: groq, which would have answered, is
  never called, and the caller gets neither a generation result nor none.
\<close>

theorem failure_returns_next_name:
  "fst (generate_analysis (gemini_fails ''boom'') ''p'' 1000 0.7 1 three_up) = NextProvider ''groq''
   \<and> fst (snd (generate_analysis (gemini_fails ''boom'') ''p'' 1000 0.7 1 three_up)) = [(''gemini'', 1000)]
   \<and> groq_client (gemini_fails ''boom'') ''p'' 1000 = Returns ''ok''"
  by code_simp

text \<open>
  C2 (the code departs from it). One failed call of gemini inside a request is recorded
  twice, by \<^verbatim>\<open>_generate_with_gemini\<close> and by \<^verbatim>\<open>_handle_provider_failure\<close>. After
  two requests in which gemini failed with a generic error, its consecutive failures are
  4, it is disabled, and the next selection returns groq.
\<close>

theorem request_failure_counted_twice:
  "\<not> is_rate_limit ''boom''
   \<and> provider_failures after_first_request ''gemini'' = 2
   \<and> provider_failures after_second_request ''gemini'' = 4
   \<and> \<not> provider_enabled after_second_request ''gemini''
   \<and> fst (get_best_provider 3 after_second_request) = Some ''groq''"
  by code_simp

text \<open>
  C3 (the code departs from it). Gemini is rate-limited at time 0, which disables it and
  sets its \<open>last_failure_time\<close>. At time 100000, later than the cooldown of 600 s and
  than the recorded reset, both selections leave the ledger as it is: gemini stays
  disabled and groq is selected. The reconciliation reads the failure time from the
  provider's dictionary, where it is never stored.
\<close>

theorem cooldown_never_readmits:
  "\<not> provider_enabled gemini_limited ''gemini''
   \<and> last_failure_time gemini_limited ''gemini'' = Some 0
   \<and> map_option reset_time (rate_limits gemini_limited ''gemini'') = Some 600
   \<and> snd (get_next_available_provider [] 100000 gemini_limited) = gemini_limited
   \<and> fst (get_next_available_provider [] 100000 gemini_limited) = Some ''groq''
   \<and> snd (get_best_provider 100000 gemini_limited) = gemini_limited
   \<and> fst (get_best_provider 100000 gemini_limited) = Some ''groq''"
proof -
  have r: "reachable gemini_limited"
    unfolding gemini_limited_def classify_failure_def
    by (auto intro: reachable.rate_limited reachable.failure reachable_three_up)
  then have nd: "no_dict_time (providers gemini_limited)"
    using reachable_inv by (auto simp: ledger_inv_def)
  have h: "healthy gemini_limited \<noteq> []" by code_simp
  have a: "\<not> provider_enabled gemini_limited ''gemini''
   \<and> last_failure_time gemini_limited ''gemini'' = Some 0
   \<and> map_option reset_time (rate_limits gemini_limited ''gemini'') = Some 600
   \<and> fst (get_next_available_provider [] 100000 gemini_limited) = Some ''groq''
   \<and> fst (get_best_provider 100000 gemini_limited) = Some ''groq''"
    by code_simp
  from nd h have "snd (get_next_available_provider [] 100000 gemini_limited) = gemini_limited"
    "snd (get_best_provider 100000 gemini_limited) = gemini_limited"
    by (simp_all add: get_next_available_provider_def get_best_provider_def Let_def
        next_reconcile_idle best_reconcile_idle)
  with a show ?thesis by simp
qed

text \<open>In every reachable state both reconciliation loops change nothing.\<close>

lemma reconciliation_idle:
  assumes "reachable s"
  shows "for_items (best_reconcile_step now) s = s \<and> for_items (next_reconcile_step now) s = s"
  using reachable_inv [OF assms]
  by (simp add: ledger_inv_def best_reconcile_idle next_reconcile_idle)

text \<open>All backend calls of one request go to one provider.\<close>

lemma only_first_provider_invoked:
  "\<exists>n. list_all (\<lambda>c. fst c = n) (fst (snd (generate_analysis B prompt max_tokens temperature now s)))"
proof -
  let ?calls = "fst (snd (generate_analysis B prompt max_tokens temperature now s))"
  from try_providers_calls [of B "''generate''" prompt
      "\<lparr>kw_max_tokens = Some max_tokens, kw_temperature = Some temperature\<rparr>" now s]
  consider "?calls = []"
    | m s1 where "?calls = fst (snd (call_provider B m prompt max_tokens now s1))"
    by (auto simp: generate_analysis_def)
  then show ?thesis
  proof cases
    case 1
    then show ?thesis by simp
  next
    case 2
    with call_provider_budget [of m max_tokens B prompt now s1]
    show ?thesis by (intro exI [of _ m]) (auto simp: list_all_iff)
  qed
qed

end
